theory Spec2Isabelle
  imports Complex_Main
begin

section \<open>Calendar dates\<close>

text \<open>
  The forecast works on calendar dates (Python \<open>datetime.date\<close>, pandas timestamps at
  midnight). A date is a year, a month and a day of the proleptic Gregorian calendar.
  Python's floats are modelled as real numbers and a missing value (pandas \<open>NaN\<close>)
  as \<open>None\<close>; the bounds Python and pandas put on the year are not modelled.
\<close>

datatype date = Date (year: int) (month: int) (day: int)

text \<open>\<open>calendar.isleap\<close>\<close>

definition isleap :: "int \<Rightarrow> bool" where
  "isleap y \<longleftrightarrow> y mod 4 = 0 \<and> (y mod 100 \<noteq> 0 \<or> y mod 400 = 0)"

text \<open>\<open>calendar.monthrange(year, month)[1]\<close>, pandas \<open>dt.days_in_month\<close>\<close>

definition days_in_month :: "int \<Rightarrow> int \<Rightarrow> int" where
  "days_in_month y m =
     (if m = 2 then (if isleap y then 29 else 28)
      else if m = 4 \<or> m = 6 \<or> m = 9 \<or> m = 11 then 30
      else 31)"

definition valid_date :: "date \<Rightarrow> bool" where
  "valid_date d \<longleftrightarrow>
     1 \<le> month d \<and> month d \<le> 12 \<and> 1 \<le> day d \<and> day d \<le> days_in_month (year d) (month d)"

text \<open>Comparison of dates: by year, then month, then day.\<close>

definition date_less :: "date \<Rightarrow> date \<Rightarrow> bool" where
  "date_less a b \<longleftrightarrow>
     year a < year b \<or>
     (year a = year b \<and> (month a < month b \<or> (month a = month b \<and> day a < day b)))"

definition date_le :: "date \<Rightarrow> date \<Rightarrow> bool" where
  "date_le a b \<longleftrightarrow> date_less a b \<or> a = b"

text \<open>\<open>d + timedelta(days=1)\<close> and \<open>d - timedelta(days=1)\<close>\<close>

definition next_day :: "date \<Rightarrow> date" where
  "next_day d =
     (if day d < days_in_month (year d) (month d) then Date (year d) (month d) (day d + 1)
      else if month d < 12 then Date (year d) (month d + 1) 1
      else Date (year d + 1) 1 1)"

definition prev_day :: "date \<Rightarrow> date" where
  "prev_day d =
     (if 1 < day d then Date (year d) (month d) (day d - 1)
      else if 1 < month d then Date (year d) (month d - 1) (days_in_month (year d) (month d - 1))
      else Date (year d - 1) 12 31)"

text \<open>
  The number of days before 1 January of year \<open>y\<close>, before the first of month \<open>m\<close>
  within the year, and the ordinal of a date (\<open>date.toordinal\<close>).
\<close>

definition days_before_year :: "int \<Rightarrow> int" where
  "days_before_year y = 365 * (y - 1) + (y - 1) div 4 - (y - 1) div 100 + (y - 1) div 400"

definition days_before_month :: "int \<Rightarrow> int \<Rightarrow> int" where
  "days_before_month y m =
     (if m \<le> 1 then 0
      else if m = 2 then 31
      else (if isleap y then 1 else 0) +
        (if m = 3 then 59 else if m = 4 then 90 else if m = 5 then 120
         else if m = 6 then 151 else if m = 7 then 181 else if m = 8 then 212
         else if m = 9 then 243 else if m = 10 then 273 else if m = 11 then 304
         else 334))"

definition toordinal :: "date \<Rightarrow> int" where
  "toordinal d = days_before_year (year d) + days_before_month (year d) (month d) + day d"

text \<open>
  \<open>d + relativedelta(months=k, day=a)\<close> of dateutil, for \<open>k\<close> between -12 and 12:
  the month is shifted, the year adjusted, and the day (the absolute day \<open>a\<close> when given,
  the date's own day otherwise) is cut down to the length of the month reached.
  \<open>d - relativedelta(months=1)\<close> is \<open>d + relativedelta(months=-1)\<close>.
\<close>

definition add_relativedelta :: "int \<Rightarrow> int option \<Rightarrow> date \<Rightarrow> date" where
  "add_relativedelta months absday d =
     (let m0 = month d + months;
          y = (if m0 > 12 then year d + 1 else if m0 < 1 then year d - 1 else year d);
          m = (if m0 > 12 then m0 - 12 else if m0 < 1 then m0 + 12 else m0);
          dd = min (days_in_month y m) (case absday of Some a \<Rightarrow> a | None \<Rightarrow> day d)
      in Date y m dd)"

text \<open>
  \<open>pd.date_range(start, end)\<close>: every day from \<open>start\<close> to \<open>end\<close>, both included,
  in order; empty when \<open>end\<close> is before \<open>start\<close>.
\<close>

fun days_from :: "nat \<Rightarrow> date \<Rightarrow> date list" where
  "days_from 0 d = []"
| "days_from (Suc n) d = d # days_from n (next_day d)"

definition date_range :: "date \<Rightarrow> date \<Rightarrow> date list" where
  "date_range a b = days_from (nat (toordinal b - toordinal a + 1)) a"

section \<open>Rounding\<close>

text \<open>Python's \<open>round(x)\<close>: the nearest integer, a tie going to the even neighbour.\<close>

definition py_round :: "real \<Rightarrow> int" where
  "py_round x =
     (let f = \<lfloor>x\<rfloor>; r = x - of_int f
      in if r < 1 / 2 then f
         else if 1 / 2 < r then f + 1
         else if even f then f else f + 1)"

section \<open>Errors\<close>

text \<open>
  The exceptions the computation itself can raise: \<open>AttributeError\<close> when the provider's
  list of monthly values is empty (the data frame then has no \<open>energy\<close> column), and
  \<open>KeyError\<close> when a month number is looked up in the series of averages and is not
  there. A failure of a provider call is outside the model.
\<close>

datatype error = AttributeError | KeyError

section \<open>Seasonal averages\<close>

text \<open>
  A monthly record of the provider is a date and the energy of that month in Wh; the
  provider reports \<open>null\<close> for a month without data, which the data frame holds as a
  missing value (\<open>None\<close> here). \<open>df = df[df.energy != 0]\<close> keeps the records whose
  energy is not 0, the missing ones among them, and
  \<open>df.energy / df.days_in_month / 1000\<close> turns each into kWh per day (missing stays
  missing), keyed by its month number.
\<close>

type_synonym monthly_record = "date \<times> real option"

definition nonzero_records :: "monthly_record list \<Rightarrow> monthly_record list" where
  "nonzero_records recs = filter (\<lambda>r. snd r \<noteq> Some 0) recs"

definition energy_per_day :: "monthly_record \<Rightarrow> real option" where
  "energy_per_day r =
     map_option (\<lambda>energy. energy / of_int (days_in_month (year (fst r)) (month (fst r))) / 1000)
       (snd r)"

text \<open>
  \<open>df.groupby(df.date.dt.month)['energy'].mean()\<close>: one pass over the rows that keeps,
  for each key, the sum and the number of its values that are not missing; the mean of a
  key is the quotient, and is missing when the key has no such value. A key with no row is
  absent from the result.
\<close>

definition group_add ::
    "int \<times> real option \<Rightarrow> (int \<rightharpoonup> real \<times> nat) \<Rightarrow> (int \<rightharpoonup> real \<times> nat)" where
  "group_add kv acc =
     acc(fst kv \<mapsto>
       (case acc (fst kv) of
          None \<Rightarrow> (case snd kv of None \<Rightarrow> (0, 0) | Some v \<Rightarrow> (v, 1))
        | Some (s, n) \<Rightarrow> (case snd kv of None \<Rightarrow> (s, n) | Some v \<Rightarrow> (s + v, n + 1))))"

definition groupby_mean :: "(int \<times> real option) list \<Rightarrow> (int \<rightharpoonup> real option)" where
  "groupby_mean rows =
     (\<lambda>k. map_option (\<lambda>(s, n). if n = 0 then None else Some (s / real n))
            (fold group_add rows Map.empty k))"

definition monthly_averages :: "monthly_record list \<Rightarrow> error + (int \<rightharpoonup> real option)" where
  "monthly_averages recs =
     (if recs = [] then Inl AttributeError
      else Inr (groupby_mean (map (\<lambda>r. (month (fst r), energy_per_day r)) (nonzero_records recs))))"

section \<open>The daily curve\<close>

text \<open>
  The function \<open>average\<close> applied to each row: the average of the row's month on the
  15th (a missing value when that average is missing), nothing on any other day.
  \<open>averages[row["month"]]\<close> raises \<open>KeyError\<close> for a month number that is not in the
  series.
\<close>

definition average :: "(int \<rightharpoonup> real option) \<Rightarrow> date \<Rightarrow> error + real option" where
  "average averages row =
     (if day row = 15
      then (case averages (month row) of None \<Rightarrow> Inl KeyError | Some v \<Rightarrow> Inr v)
      else Inr None)"

text \<open>\<open>daily.apply(f, axis=1)\<close>: row after row, stopping at the first exception.\<close>

fun apply_rows :: "('a \<Rightarrow> error + 'b) \<Rightarrow> 'a list \<Rightarrow> error + 'b list" where
  "apply_rows f [] = Inr []"
| "apply_rows f (r # rs) =
     (case f r of
        Inl e \<Rightarrow> Inl e
      | Inr v \<Rightarrow> (case apply_rows f rs of Inl e \<Rightarrow> Inl e | Inr vs \<Rightarrow> Inr (v # vs)))"

text \<open>
  \<open>interpolate(limit_direction='both')\<close>, linear: the positions holding a value are the
  knots; a missing position between two knots takes the value of the line through them,
  a missing position before the first knot or after the last takes that knot's value
  (\<open>numpy.interp\<close>). A column with no value at all is left as it is.
\<close>

fun np_interp :: "(nat \<times> real) list \<Rightarrow> nat \<Rightarrow> real" where
  "np_interp [] x = 0"
| "np_interp [(i, v)] x = v"
| "np_interp ((i, v) # (j, w) # ps) x =
     (if x \<le> i then v
      else if x < j then (w - v) / (real j - real i) * (real x - real i) + v
      else np_interp ((j, w) # ps) x)"

definition valid_points :: "real option list \<Rightarrow> (nat \<times> real) list" where
  "valid_points ys = List.map_filter (\<lambda>(i, y). map_option (Pair i) y) (enumerate 0 ys)"

definition interpolate :: "real option list \<Rightarrow> real option list" where
  "interpolate ys =
     (let pts = valid_points ys
      in if pts = [] then ys
         else map (\<lambda>(i, y). case y of Some v \<Rightarrow> Some v | None \<Rightarrow> Some (np_interp pts i))
                (enumerate 0 ys))"

text \<open>
  The frame \<open>daily\<close>: one row per day from one month before the start date to one month
  after the end date, seeded on the 15th of each month and interpolated. The first month
  number that is missing from the averages stops the seeding.
\<close>

type_synonym curve = "(date \<times> real option) list"

definition padded_start :: "date \<Rightarrow> date" where
  "padded_start startdate = add_relativedelta (- 1) None startdate"

definition padded_end :: "date \<Rightarrow> date" where
  "padded_end enddate = add_relativedelta 1 None enddate"

definition daily_curve :: "(int \<rightharpoonup> real option) \<Rightarrow> date \<Rightarrow> date \<Rightarrow> error + curve" where
  "daily_curve averages startdate enddate =
     (let dates = date_range (padded_start startdate) (padded_end enddate)
      in case apply_rows (average averages) dates of
           Inl e \<Rightarrow> Inl e
         | Inr energy \<Rightarrow> Inr (zip dates (interpolate energy)))"

section \<open>Reconciling the curve with the metered production\<close>

text \<open>
  \<open>daily.loc[lo:hi]['energy'].sum()\<close>: the sum of the values of the rows dated from
  \<open>lo\<close> to \<open>hi\<close>, both included; a missing value is skipped.
\<close>

definition loc_sum :: "date \<Rightarrow> date \<Rightarrow> curve \<Rightarrow> real" where
  "loc_sum lo hi daily =
     sum_list (List.map_filter (\<lambda>(d, v). if date_le lo d \<and> date_le d hi then v else None) daily)"

record forecast_result =
  produced :: int
  estimated :: int
  forecast :: int
  progress :: int

definition energy_produced_today_extra :: "real \<Rightarrow> real \<Rightarrow> real" where
  "energy_produced_today_extra energy_produced_today energy_estimated_today =
     max 0 (energy_produced_today - energy_estimated_today)"

text \<open>
  Lines 82 to 113 of \<open>get_solar_forecast\<close>; \<open>year_wh\<close> and \<open>day_wh\<close> are the two
  totals the provider returns, in Wh.
\<close>

definition reconcile :: "curve \<Rightarrow> date \<Rightarrow> date \<Rightarrow> date \<Rightarrow> real \<Rightarrow> real \<Rightarrow> forecast_result" where
  "reconcile daily startdate enddate today year_wh day_wh =
     (let tomorrow = next_day today;
          yesterday = prev_day today;
          energy_estimated_from_tomorrow = loc_sum tomorrow enddate daily;
          energy_estimated_until_yesterday = loc_sum startdate yesterday daily;
          energy_estimated_today = loc_sum today today daily;
          energy_estimated_period = energy_estimated_today + energy_estimated_from_tomorrow;
          energy_production_until_now = year_wh / 1000;
          energy_produced_today = day_wh / 1000;
          energy_produced_until_yesterday = energy_production_until_now - energy_produced_today;
          extra = energy_produced_today_extra energy_produced_today energy_estimated_today;
          energy_production_progress =
            energy_produced_until_yesterday - energy_estimated_until_yesterday + extra;
          total = energy_estimated_period + energy_production_until_now
      in \<lparr>produced = py_round energy_production_until_now,
          estimated = py_round energy_estimated_period,
          forecast = py_round total,
          progress = py_round energy_production_progress\<rparr>)"

section \<open>The provider and the whole computation\<close>

datatype time_unit = YEAR | MONTH | DAY

record provider =
  get_data_period :: date
  get_energy :: "date \<Rightarrow> date \<Rightarrow> monthly_record list"
  get_time_frame_energy :: "date \<Rightarrow> date \<Rightarrow> time_unit \<Rightarrow> real"

text \<open>
  The production start date. The constructor moves a start date given by the caller to
  the first day of the next month when its day is after the 1st;
  \<open>get_solar_forecast\<close> takes the provider's first date when the caller gave none.
\<close>

definition init_startdate_production :: "date option \<Rightarrow> date option" where
  "init_startdate_production startdate_production =
     (case startdate_production of
        Some d \<Rightarrow> Some (if 1 < day d then add_relativedelta 1 (Some 1) d else d)
      | None \<Rightarrow> None)"

definition resolve_startdate_production :: "provider \<Rightarrow> date option \<Rightarrow> date" where
  "resolve_startdate_production data startdate_production =
     (case startdate_production of
        None \<Rightarrow> add_relativedelta 1 (Some 1) (get_data_period data)
      | Some d \<Rightarrow> d)"

definition get_solar_forecast ::
    "provider \<Rightarrow> date \<Rightarrow> date \<Rightarrow> date \<Rightarrow> date option \<Rightarrow> error + forecast_result" where
  "get_solar_forecast data now startdate enddate startdate_production =
     (let today = now;
          tomorrow = next_day now;
          last_month = prev_day (Date (year now) (month now) 1);
          start_production = resolve_startdate_production data startdate_production
      in case monthly_averages (get_energy data start_production last_month) of
           Inl e \<Rightarrow> Inl e
         | Inr averages \<Rightarrow>
            (case daily_curve averages startdate enddate of
               Inl e \<Rightarrow> Inl e
             | Inr daily \<Rightarrow>
                Inr (reconcile daily startdate enddate today
                      (get_time_frame_energy data startdate enddate YEAR)
                      (get_time_frame_energy data today tomorrow DAY))))"

text \<open>The constructor \<open>SolaredgeForecast(startdate, enddate, startdate_production, ...)\<close>.\<close>

definition solaredge_forecast ::
    "provider \<Rightarrow> date \<Rightarrow> date \<Rightarrow> date \<Rightarrow> date option \<Rightarrow> error + forecast_result" where
  "solaredge_forecast data now startdate enddate startdate_production =
     get_solar_forecast data now startdate enddate (init_startdate_production startdate_production)"

section \<open>The curve read by date\<close>

text \<open>
  The value of the curve on a day, read off the rows by the date, for stating sums of the
  curve over a range of days independently of the frame's slices; a day that has no row
  or no value counts as 0, as in a sum that skips it.
\<close>

definition curve_value_at :: "curve \<Rightarrow> date \<Rightarrow> real" where
  "curve_value_at daily d = (case map_of daily d of Some (Some v) \<Rightarrow> v | _ \<Rightarrow> 0)"

section \<open>Sample inputs\<close>

text \<open>
  Inputs on which the computation is evaluated below: averages that are the same for all
  12 month numbers; a provider whose history has two months only, January and February
  2023 with 10 kWh per day; and a provider whose history has February and April 2023
  with 10 kWh per day and reports \<open>null\<close> for March 2023. Both report 450 kWh for the
  year and 12 kWh for today.
\<close>

definition constant_averages :: "real \<Rightarrow> (int \<rightharpoonup> real option)" where
  "constant_averages X = (\<lambda>m. if 1 \<le> m \<and> m \<le> 12 then Some (Some X) else None)"

definition provider_two_months :: provider where
  "provider_two_months =
     \<lparr>get_data_period = Date 2022 12 14,
      get_energy = (\<lambda>start_date end_date.
        [(Date 2023 1 1, Some 310000), (Date 2023 2 1, Some 280000)]),
      get_time_frame_energy = (\<lambda>start_date end_date unit. if unit = YEAR then 450000 else 12000)\<rparr>"

definition provider_null_march :: provider where
  "provider_null_march =
     \<lparr>get_data_period = Date 2023 1 20,
      get_energy = (\<lambda>start_date end_date.
        [(Date 2023 2 1, Some 280000), (Date 2023 3 1, None), (Date 2023 4 1, Some 300000)]),
      get_time_frame_energy = (\<lambda>start_date end_date unit. if unit = YEAR then 450000 else 12000)\<rparr>"

section \<open>Facts about the calendar\<close>

lemma days_in_month_bounds: "28 \<le> days_in_month y m \<and> days_in_month y m \<le> 31"
  by (simp add: days_in_month_def)

lemma days_before_month_step:
  assumes "1 \<le> m" "m \<le> 11"
  shows "days_before_month y (m + 1) = days_before_month y m + days_in_month y m"
proof -
  from assms have "m = 1 \<or> m = 2 \<or> m = 3 \<or> m = 4 \<or> m = 5 \<or> m = 6 \<or> m = 7 \<or> m = 8 \<or> m = 9
      \<or> m = 10 \<or> m = 11"
    by arith
  then show ?thesis
    by (elim disjE) (simp_all add: days_before_month_def days_in_month_def)
qed

lemma days_before_month_12: "days_before_month y 12 + 31 = 365 + (if isleap y then 1 else 0)"
  by (simp add: days_before_month_def)

lemma div_pred: "0 < k \<Longrightarrow> (y::int) div k = (y - 1) div k + (if y mod k = 0 then 1 else 0)"
proof -
  assume k: "0 < k"
  define q where "q = y div k"
  define r where "r = y mod k"
  have y: "y = k * q + r" and r: "0 \<le> r" "r < k"
    using k by (simp_all add: q_def r_def)
  show ?thesis
  proof (cases "r = 0")
    case True
    have "y - 1 = k * (q - 1) + (k - 1)" using y True by (simp add: algebra_simps)
    moreover have "(k * (q - 1) + (k - 1)) div k = q - 1"
      using k by simp
    ultimately have "(y - 1) div k = q - 1" by (simp only:)
    then show ?thesis using True by (simp add: q_def r_def)
  next
    case False
    have "y - 1 = k * q + (r - 1)" using y by simp
    moreover have "(k * q + (r - 1)) div k = q"
      using False r k by simp
    ultimately have "(y - 1) div k = q" by (simp only:)
    then show ?thesis using False by (simp add: q_def r_def)
  qed
qed


lemma leap_mods:
  fixes y :: int
  shows "y mod 100 = 0 \<Longrightarrow> y mod 4 = 0" and "y mod 400 = 0 \<Longrightarrow> y mod 100 = 0"
proof -
  have "(4::int) dvd 100" "(100::int) dvd 400" by simp_all
  then show "y mod 100 = 0 \<Longrightarrow> y mod 4 = 0" "y mod 400 = 0 \<Longrightarrow> y mod 100 = 0"
    by (metis dvd_trans mod_eq_0_iff_dvd)+
qed

lemma days_before_year_step:
  "days_before_year (y + 1) = days_before_year y + 365 + (if isleap y then 1 else 0)"
proof -
  have d4: "y div 4 = (y - 1) div 4 + (if y mod 4 = 0 then 1 else 0)"
    by (rule div_pred) simp
  have d100: "y div 100 = (y - 1) div 100 + (if y mod 100 = 0 then 1 else 0)"
    by (rule div_pred) simp
  have d400: "y div 400 = (y - 1) div 400 + (if y mod 400 = 0 then 1 else 0)"
    by (rule div_pred) simp
  have "days_before_year (y + 1) = 365 * y + y div 4 - y div 100 + y div 400"
    by (simp add: days_before_year_def)
  also have "\<dots> = days_before_year y + 365 +
      ((if y mod 4 = 0 then 1 else 0) - (if y mod 100 = 0 then 1 else 0) + (if y mod 400 = 0 then 1 else 0))"
    unfolding days_before_year_def
    by (subst d4, subst d100, subst d400) simp
  also have "(if y mod 4 = 0 then 1 else 0) - (if y mod 100 = 0 then 1 else 0) + (if y mod 400 = 0 then 1 else 0)
      = (if isleap y then 1 else (0::int))"
  proof (cases "y mod 400 = 0")
    case True
    then have "y mod 100 = 0" by (rule leap_mods)
    moreover from this have "y mod 4 = 0" by (rule leap_mods)
    ultimately show ?thesis using True by (simp add: isleap_def)
  next
    case n400: False
    show ?thesis
    proof (cases "y mod 100 = 0")
      case True
      then have "y mod 4 = 0" by (rule leap_mods)
      with True n400 show ?thesis by (simp add: isleap_def)
    next
      case False
      with n400 show ?thesis by (simp add: isleap_def)
    qed
  qed
  finally show ?thesis .
qed


lemma valid_next_day: "valid_date d \<Longrightarrow> valid_date (next_day d)"
proof -
  assume v: "valid_date d"
  have a: "1 \<le> days_in_month (year d) (month d + 1)"
    using days_in_month_bounds [of "year d" "month d + 1"] by linarith
  have b: "days_in_month (year d + 1) 1 = 31"
    by (simp add: days_in_month_def)
  show ?thesis
    using v a b by (simp add: valid_date_def next_day_def)
qed

lemma toordinal_next_day: "valid_date d \<Longrightarrow> toordinal (next_day d) = toordinal d + 1"
proof -
  assume v: "valid_date d"
  show ?thesis
  proof (cases "day d < days_in_month (year d) (month d)")
    case True
    then show ?thesis by (simp add: next_day_def toordinal_def)
  next
    case False
    with v have dd: "day d = days_in_month (year d) (month d)"
      by (simp add: valid_date_def)
    show ?thesis
    proof (cases "month d < 12")
      case True
      with v have "1 \<le> month d" "month d \<le> 11" by (simp_all add: valid_date_def)
      from days_before_month_step [OF this, of "year d"] dd True False
      show ?thesis by (simp add: next_day_def toordinal_def)
    next
      case m: False
      with v have m12: "month d = 12" by (simp add: valid_date_def)
      then have "day d = 31" using dd by (simp add: days_in_month_def)
      with m12 days_before_month_12 [of "year d"] days_before_year_step [of "year d"] False
      show ?thesis by (simp add: next_day_def toordinal_def days_before_month_def [of _ 1])
    qed
  qed
qed


lemma days_before_month_mono_aux:
  "1 \<le> m \<Longrightarrow> m + int k \<le> 12 \<Longrightarrow> days_before_month y m \<le> days_before_month y (m + int k)"
proof (induction k)
  case 0
  then show ?case by simp
next
  case (Suc k)
  then have le: "days_before_month y m \<le> days_before_month y (m + int k)" by simp
  have eq: "m + int (Suc k) = (m + int k) + 1" by simp
  have "days_before_month y ((m + int k) + 1) =
      days_before_month y (m + int k) + days_in_month y (m + int k)"
    using Suc.prems by (intro days_before_month_step) simp_all
  moreover have "0 \<le> days_in_month y (m + int k)"
    using days_in_month_bounds [of y "m + int k"] by linarith
  ultimately show ?case unfolding eq using le by linarith
qed

lemma days_before_month_next:
  assumes "1 \<le> m" "m < m'" "m' \<le> 12"
  shows "days_before_month y m + days_in_month y m \<le> days_before_month y m'"
proof -
  define k where "k = nat (m' - m - 1)"
  have eq: "m + 1 + int k = m'" using assms by (simp add: k_def)
  have "days_before_month y (m + 1) \<le> days_before_month y (m + 1 + int k)"
    using assms eq by (intro days_before_month_mono_aux) simp_all
  then have "days_before_month y (m + 1) \<le> days_before_month y m'"
    by (simp only: eq)
  moreover have "days_before_month y (m + 1) = days_before_month y m + days_in_month y m"
    using assms by (intro days_before_month_step) simp_all
  ultimately show ?thesis by linarith
qed

lemma days_before_month_nonneg: "0 \<le> days_before_month y m"
  by (simp add: days_before_month_def)

lemma day_of_year_le:
  assumes "valid_date d"
  shows "days_before_month (year d) (month d) + day d \<le> 365 + (if isleap (year d) then 1 else 0)"
proof (cases "month d = 12")
  case True
  then have "day d \<le> 31" using assms by (simp add: valid_date_def days_in_month_def)
  then show ?thesis using days_before_month_12 [of "year d"] True by simp
next
  case False
  then have "days_before_month (year d) (month d) + days_in_month (year d) (month d)
      \<le> days_before_month (year d) 12"
    using assms by (intro days_before_month_next) (simp_all add: valid_date_def)
  moreover have "day d \<le> days_in_month (year d) (month d)"
    using assms by (simp add: valid_date_def)
  ultimately show ?thesis using days_before_month_12 [of "year d"] by simp
qed

lemma days_before_year_mono_aux:
  "days_before_year y + 365 * int k \<le> days_before_year (y + int k)"
proof (induction k)
  case 0
  then show ?case by simp
next
  case (Suc k)
  have eq: "y + int (Suc k) = (y + int k) + 1" by simp
  have "days_before_year (y + int k) + 365 \<le> days_before_year ((y + int k) + 1)"
    using days_before_year_step [of "y + int k"] by simp
  moreover have "365 * int (Suc k) = 365 * int k + 365" by simp
  ultimately show ?case unfolding eq using Suc by linarith
qed

lemma days_before_year_next:
  assumes "y < y'"
  shows "days_before_year y + 365 + (if isleap y then 1 else 0) \<le> days_before_year y'"
proof -
  define k where "k = nat (y' - y - 1)"
  have eq: "y + 1 + int k = y'" using assms by (simp add: k_def)
  have "days_before_year (y + 1) + 365 * int k \<le> days_before_year (y + 1 + int k)"
    by (rule days_before_year_mono_aux)
  then have "days_before_year (y + 1) + 365 * int k \<le> days_before_year y'"
    by (simp only: eq)
  moreover have "0 \<le> 365 * int k" by simp
  ultimately have "days_before_year (y + 1) \<le> days_before_year y'" by linarith
  then show ?thesis using days_before_year_step [of y] by simp
qed

lemma toordinal_strict_mono:
  assumes "valid_date a" "valid_date b" "date_less a b"
  shows "toordinal a < toordinal b"
proof -
  have b1: "1 \<le> day b" and a1: "day a \<le> days_in_month (year a) (month a)"
    and ma: "1 \<le> month a" and mb: "month b \<le> 12"
    using assms by (simp_all add: valid_date_def)
  from assms(3) consider
      (y) "year a < year b"
    | (m) "year a = year b" "month a < month b"
    | (d) "year a = year b" "month a = month b" "day a < day b"
    by (auto simp add: date_less_def)
  then show ?thesis
  proof cases
    case y
    have "toordinal a \<le> days_before_year (year a) + 365 + (if isleap (year a) then 1 else 0)"
      using day_of_year_le [OF assms(1)] by (simp add: toordinal_def)
    also have "\<dots> \<le> days_before_year (year b)"
      using y by (rule days_before_year_next)
    also have "\<dots> < toordinal b"
      using b1 days_before_month_nonneg [of "year b" "month b"] by (simp add: toordinal_def)
    finally show ?thesis .
  next
    case m
    have "days_before_month (year a) (month a) + days_in_month (year a) (month a)
        \<le> days_before_month (year a) (month b)"
      using ma m(2) mb by (rule days_before_month_next)
    then show ?thesis using a1 b1 m(1) by (simp add: toordinal_def)
  next
    case d
    then show ?thesis by (simp add: toordinal_def)
  qed
qed

lemma date_trichotomy: "date_less a b \<or> a = b \<or> date_less b a"
  by (cases a; cases b) (auto simp add: date_less_def)

lemma toordinal_less_iff:
  assumes "valid_date a" "valid_date b"
  shows "toordinal a < toordinal b \<longleftrightarrow> date_less a b"
  using toordinal_strict_mono [OF assms] toordinal_strict_mono [OF assms(2,1)]
    date_trichotomy [of a b]
  by auto

lemma toordinal_le_iff:
  assumes "valid_date a" "valid_date b"
  shows "toordinal a \<le> toordinal b \<longleftrightarrow> date_le a b"
  using toordinal_strict_mono [OF assms] toordinal_strict_mono [OF assms(2,1)]
    date_trichotomy [of a b]
  by (auto simp add: date_le_def)

lemma toordinal_inj:
  assumes "valid_date a" "valid_date b" "toordinal a = toordinal b"
  shows "a = b"
  using toordinal_strict_mono [OF assms(1,2)] toordinal_strict_mono [OF assms(2,1)]
    date_trichotomy [of a b] assms(3)
  by auto

section \<open>Facts about ranges of dates\<close>

lemma length_days_from: "length (days_from n d) = n"
  by (induction n arbitrary: d) simp_all

lemma days_from_valid: "valid_date d \<Longrightarrow> x \<in> set (days_from n d) \<Longrightarrow> valid_date x"
proof (induction n arbitrary: d)
  case 0
  then show ?case by simp
next
  case (Suc n)
  from Suc.prems(2) have "x = d \<or> x \<in> set (days_from n (next_day d))" by simp
  then show ?case
  proof
    assume "x = d"
    then show ?thesis using Suc.prems(1) by simp
  next
    assume "x \<in> set (days_from n (next_day d))"
    with valid_next_day [OF Suc.prems(1)] show ?thesis by (rule Suc.IH)
  qed
qed

lemma toordinal_days_from:
  "valid_date d \<Longrightarrow> map toordinal (days_from n d) = [toordinal d .. toordinal d + int n - 1]"
proof (induction n arbitrary: d)
  case 0
  then show ?case by simp
next
  case (Suc n)
  have "map toordinal (days_from n (next_day d)) =
      [toordinal (next_day d) .. toordinal (next_day d) + int n - 1]"
    using Suc.prems by (intro Suc.IH valid_next_day)
  then have "map toordinal (days_from n (next_day d)) = [toordinal d + 1 .. toordinal d + int n]"
    using Suc.prems by (simp add: toordinal_next_day)
  moreover have "[toordinal d .. toordinal d + int (Suc n) - 1] =
      toordinal d # [toordinal d + 1 .. toordinal d + int n]"
    by (subst upto_rec1) simp_all
  ultimately show ?case by simp
qed

lemma date_range_valid: "valid_date a \<Longrightarrow> x \<in> set (date_range a b) \<Longrightarrow> valid_date x"
  unfolding date_range_def by (rule days_from_valid)

lemma toordinal_date_range:
  "valid_date a \<Longrightarrow> map toordinal (date_range a b) = [toordinal a .. toordinal b]"
  unfolding date_range_def by (cases "toordinal a \<le> toordinal b") (simp_all add: toordinal_days_from)

lemma distinct_date_range: "valid_date a \<Longrightarrow> distinct (date_range a b)"
proof -
  assume "valid_date a"
  then have "distinct (map toordinal (date_range a b))"
    by (simp add: toordinal_date_range)
  then show ?thesis by (simp add: distinct_map)
qed

lemma set_date_range:
  assumes "valid_date a" "valid_date b"
  shows "set (date_range a b) = {x. valid_date x \<and> date_le a x \<and> date_le x b}"
proof (intro set_eqI iffI)
  fix x
  assume x: "x \<in> set (date_range a b)"
  then have v: "valid_date x" using assms(1) by (rule date_range_valid [rotated])
  from x have "toordinal x \<in> set (map toordinal (date_range a b))" by simp
  then have "toordinal a \<le> toordinal x" "toordinal x \<le> toordinal b"
    using assms(1) by (simp_all add: toordinal_date_range)
  then show "x \<in> {x. valid_date x \<and> date_le a x \<and> date_le x b}"
    using v assms by (simp add: toordinal_le_iff)
next
  fix x
  assume "x \<in> {x. valid_date x \<and> date_le a x \<and> date_le x b}"
  then have v: "valid_date x" and "toordinal a \<le> toordinal x" "toordinal x \<le> toordinal b"
    using assms by (simp_all add: toordinal_le_iff)
  then have "toordinal x \<in> set (map toordinal (date_range a b))"
    using assms(1) by (simp add: toordinal_date_range)
  then obtain z where z: "z \<in> set (date_range a b)" "toordinal z = toordinal x"
    by auto
  from assms(1) z(1) have "valid_date z" by (rule date_range_valid)
  then have "z = x" using v z(2) by (rule toordinal_inj)
  with z(1) show "x \<in> set (date_range a b)" by simp
qed

lemma length_date_range:
  "length (date_range a b) = nat (toordinal b - toordinal a + 1)"
  by (simp add: date_range_def length_days_from)

subsection \<open>Shifting by a month\<close>

lemma valid_add_relativedelta:
  assumes "valid_date d" "- 12 \<le> k" "k \<le> 12" "case a of Some x \<Rightarrow> 1 \<le> x | None \<Rightarrow> True"
  shows "valid_date (add_relativedelta k a d)"
proof -
  have m: "1 \<le> month d" "month d \<le> 12" and d: "1 \<le> day d"
    using assms(1) by (simp_all add: valid_date_def)
  have "1 \<le> (case a of Some x \<Rightarrow> x | None \<Rightarrow> day d)"
    using assms(4) d by (cases a) simp_all
  moreover have "\<And>y m. 1 \<le> days_in_month y m"
    using days_in_month_bounds by (metis order_trans one_le_numeral)
  ultimately show ?thesis
    using m assms(2,3) by (simp add: add_relativedelta_def valid_date_def Let_def)
qed

lemma valid_padded_start: "valid_date d \<Longrightarrow> valid_date (padded_start d)"
  unfolding padded_start_def by (rule valid_add_relativedelta) simp_all

lemma valid_padded_end: "valid_date d \<Longrightarrow> valid_date (padded_end d)"
  unfolding padded_end_def by (rule valid_add_relativedelta) simp_all

lemma padded_start_less: "valid_date d \<Longrightarrow> date_less (padded_start d) d"
  by (simp add: padded_start_def add_relativedelta_def date_less_def valid_date_def Let_def)

lemma padded_end_greater: "valid_date d \<Longrightarrow> date_less d (padded_end d)"
  by (simp add: padded_end_def add_relativedelta_def date_less_def valid_date_def Let_def)

lemma date_le_trans:
  assumes "valid_date a" "valid_date b" "valid_date c" "date_le a b" "date_le b c"
  shows "date_le a c"
proof -
  have "toordinal a \<le> toordinal b" "toordinal b \<le> toordinal c"
    using assms by (simp_all add: toordinal_le_iff)
  then have "toordinal a \<le> toordinal c" by simp
  then show ?thesis using assms by (simp add: toordinal_le_iff)
qed

text \<open>The 15th of the start date's month lies in the padded range.\<close>

lemma fifteenth_valid: "valid_date s \<Longrightarrow> valid_date (Date (year s) (month s) 15)"
  using days_in_month_bounds [of "year s" "month s"] by (simp add: valid_date_def)

lemma fifteenth_after_padded_start:
  "valid_date s \<Longrightarrow> date_le (padded_start s) (Date (year s) (month s) 15)"
  by (simp add: padded_start_def add_relativedelta_def date_less_def date_le_def valid_date_def
      Let_def)

lemma fifteenth_before_padded_end:
  assumes "valid_date s" "valid_date e" "date_le s e"
  shows "date_le (Date (year s) (month s) 15) (padded_end e)"
proof -
  have "year s < year e \<or> (year s = year e \<and> month s \<le> month e)"
    using assms(3) by (auto simp add: date_le_def date_less_def)
  moreover have "year e < year (padded_end e) \<or>
      (year e = year (padded_end e) \<and> month e < month (padded_end e))"
    using assms(2) by (simp add: padded_end_def add_relativedelta_def valid_date_def Let_def)
  ultimately have "date_less (Date (year s) (month s) 15) (padded_end e)"
    by (auto simp add: date_less_def)
  then show ?thesis by (simp add: date_le_def)
qed

lemma fifteenth_in_padded_range:
  assumes "valid_date s" "valid_date e" "date_le s e"
  shows "Date (year s) (month s) 15 \<in> set (date_range (padded_start s) (padded_end e))"
  using assms
  by (simp add: set_date_range valid_padded_start valid_padded_end fifteenth_valid
      fifteenth_after_padded_start fifteenth_before_padded_end)

section \<open>Facts about the interpolation\<close>

lemma map_filter_points_iff:
  "(i, v) \<in> set (List.map_filter (\<lambda>(i, y). map_option (Pair i) y) xs) \<longleftrightarrow> (i, Some v) \<in> set xs"
  by (induction xs) (auto split: option.splits)

lemma valid_points_iff:
  "(i, v) \<in> set (valid_points ys) \<longleftrightarrow> i < length ys \<and> ys ! i = Some v"
  by (auto simp add: valid_points_def map_filter_points_iff in_set_enumerate_eq)



lemma length_interpolate: "length (interpolate ys) = length ys"
  by (simp add: interpolate_def Let_def)

lemma interpolate_nth:
  assumes "i < length ys"
  shows "interpolate ys ! i =
    (if valid_points ys = [] then ys ! i
     else case ys ! i of Some v \<Rightarrow> Some v | None \<Rightarrow> Some (np_interp (valid_points ys) i))"
  using assms by (simp add: interpolate_def Let_def nth_enumerate_eq)

lemma interpolate_keeps:
  assumes "i < length ys" "ys ! i = Some v"
  shows "interpolate ys ! i = Some v"
  using assms by (simp add: interpolate_nth)

lemma valid_points_nonempty:
  assumes "i < length ys" "ys ! i = Some v"
  shows "valid_points ys \<noteq> []"
proof -
  have "(i, v) \<in> set (valid_points ys)" using assms by (simp add: valid_points_iff)
  then show ?thesis by auto
qed

text \<open>A value on the line between two knots lies between the knots' values.\<close>

lemma between_knots:
  fixes v w lo hi :: real
  assumes "lo \<le> v" "v \<le> hi" "lo \<le> w" "w \<le> hi" "i < x" "x < j"
  shows "lo \<le> (w - v) / (real j - real i) * (real x - real i) + v"
    and "(w - v) / (real j - real i) * (real x - real i) + v \<le> hi"
proof -
  define t where "t = (real x - real i) / (real j - real i)"
  have t: "0 \<le> t" "t \<le> 1" using assms(5,6) by (simp_all add: t_def)
  have eq: "(w - v) / (real j - real i) * (real x - real i) + v = (1 - t) * v + t * w"
    by (simp add: t_def algebra_simps diff_divide_distrib add_divide_distrib)
  have "(1 - t) * lo + t * lo \<le> (1 - t) * v + t * w"
    using t assms(1,3) by (intro add_mono mult_left_mono) simp_all
  then show "lo \<le> (w - v) / (real j - real i) * (real x - real i) + v"
    unfolding eq by (simp add: algebra_simps)
  have "(1 - t) * v + t * w \<le> (1 - t) * hi + t * hi"
    using t assms(2,4) by (intro add_mono mult_left_mono) simp_all
  then show "(w - v) / (real j - real i) * (real x - real i) + v \<le> hi"
    unfolding eq by (simp add: algebra_simps)
qed

lemma np_interp_bounds:
  assumes "pts \<noteq> []" "\<forall>p\<in>set pts. lo \<le> snd p \<and> snd p \<le> hi"
  shows "lo \<le> np_interp pts x \<and> np_interp pts x \<le> hi"
  using assms
proof (induction pts x rule: np_interp.induct)
  case (1 x)
  then show ?case by simp
next
  case (2 i v x)
  then show ?case by simp
next
  case (3 i v j w ps x)
  have v: "lo \<le> v" "v \<le> hi" and w: "lo \<le> w" "w \<le> hi" using "3.prems"(2) by simp_all
  show ?case
  proof (cases "x \<le> i")
    case True
    then show ?thesis using v by simp
  next
    case xi: False
    show ?thesis
    proof (cases "x < j")
      case True
      with xi have "i < x" by simp
      from between_knots [OF v w this True] xi True show ?thesis by simp
    next
      case False
      have "lo \<le> np_interp ((j, w) # ps) x \<and> np_interp ((j, w) # ps) x \<le> hi"
        using xi False "3.prems"(2) by (intro "3.IH") simp_all
      then show ?thesis using xi False by simp
    qed
  qed
qed







section \<open>Facts about the daily curve\<close>


lemma interpolate_bounds:
  assumes "valid_points ys \<noteq> []" "i < length ys"
    and "\<forall>j<length ys. \<forall>v. ys ! j = Some v \<longrightarrow> lo \<le> v \<and> v \<le> hi"
  shows "\<exists>v. interpolate ys ! i = Some v \<and> lo \<le> v \<and> v \<le> hi"
proof (cases "ys ! i")
  case None
  have "\<forall>p\<in>set (valid_points ys). lo \<le> snd p \<and> snd p \<le> hi"
    using assms(3) by (auto simp add: valid_points_iff)
  with assms(1) have "lo \<le> np_interp (valid_points ys) i \<and> np_interp (valid_points ys) i \<le> hi"
    by (rule np_interp_bounds)
  then show ?thesis using assms(1,2) None by (simp add: interpolate_nth)
next
  case (Some v)
  then show ?thesis using assms by (simp add: interpolate_nth)
qed




subsection \<open>Seeding\<close>

lemma average_KeyError_iff:
  "average averages d = Inl KeyError \<longleftrightarrow> day d = 15 \<and> averages (month d) = None"
  by (simp add: average_def split: option.splits)

lemma average_Inr:
  "average averages d \<noteq> Inl KeyError \<Longrightarrow> average averages d = Inr (projr (average averages d))"
  by (auto simp add: average_def split: option.splits if_splits)

lemma average_value_iff:
  "average averages d = Inr (Some v) \<longleftrightarrow> day d = 15 \<and> averages (month d) = Some (Some v)"
  by (simp add: average_def split: option.splits)

lemma apply_rows_average:
  "apply_rows (average averages) ds =
    (if \<exists>d\<in>set ds. average averages d = Inl KeyError then Inl KeyError
     else Inr (map (\<lambda>d. projr (average averages d)) ds))"
proof (induction ds)
  case Nil
  then show ?case by simp
next
  case (Cons d ds)
  show ?case
  proof (cases "average averages d = Inl KeyError")
    case True
    then show ?thesis by simp
  next
    case False
    from average_Inr [OF this] obtain y where y: "average averages d = Inr y" ..
    then have "projr (average averages d) = y" by simp
    with y False Cons.IH show ?thesis by simp
  qed
qed

lemma daily_curve_eq:
  "daily_curve averages s e =
    (if \<exists>d\<in>set (date_range (padded_start s) (padded_end e)). average averages d = Inl KeyError
     then Inl KeyError
     else Inr (zip (date_range (padded_start s) (padded_end e))
            (interpolate (map (\<lambda>d. projr (average averages d))
               (date_range (padded_start s) (padded_end e))))))"
  by (simp add: daily_curve_def Let_def apply_rows_average)

lemma padded_range_nonempty:
  assumes "valid_date s" "valid_date e" "date_le s e"
  shows "date_range (padded_start s) (padded_end e) \<noteq> []"
  using fifteenth_in_padded_range [OF assms] by auto

section \<open>Facts about rounding, grouping and slices\<close>

subsection \<open>Rounding\<close>

lemma py_round_nearest: "\<bar>real_of_int (py_round x) - x\<bar> \<le> 1 / 2"
proof -
  have "real_of_int \<lfloor>x\<rfloor> \<le> x" "x < real_of_int \<lfloor>x\<rfloor> + 1" by linarith+
  then show ?thesis by (auto simp add: py_round_def Let_def)
qed

subsection \<open>Grouping\<close>

lemma group_add_apply:
  "group_add kv acc k =
    (if k = fst kv
     then Some (case acc (fst kv) of
                  None \<Rightarrow> (case snd kv of None \<Rightarrow> (0, 0) | Some v \<Rightarrow> (v, 1))
                | Some (s, n) \<Rightarrow> (case snd kv of None \<Rightarrow> (s, n) | Some v \<Rightarrow> (s + v, n + 1)))
     else acc k)"
  by (simp add: group_add_def)

lemma fold_group_add:
  "fold group_add rows acc k =
    (let g = map snd (filter (\<lambda>kv. fst kv = k) rows);
         vs = List.map_filter (\<lambda>y. y) g
     in case acc k of
          None \<Rightarrow> if g = [] then None else Some (sum_list vs, length vs)
        | Some (s, n) \<Rightarrow> Some (s + sum_list vs, n + length vs))"
proof (induction rows arbitrary: acc)
  case Nil
  then show ?case by (simp split: option.splits)
next
  case (Cons kv rows)
  have "fold group_add (kv # rows) acc k = fold group_add rows (group_add kv acc) k"
    by simp
  also have "\<dots> =
    (let g = map snd (filter (\<lambda>kv. fst kv = k) rows);
         vs = List.map_filter (\<lambda>y. y) g
     in case group_add kv acc k of
          None \<Rightarrow> if g = [] then None else Some (sum_list vs, length vs)
        | Some (s, n) \<Rightarrow> Some (s + sum_list vs, n + length vs))"
    by (rule Cons.IH)
  also have "\<dots> =
    (let g = map snd (filter (\<lambda>kv. fst kv = k) (kv # rows));
         vs = List.map_filter (\<lambda>y. y) g
     in case acc k of
          None \<Rightarrow> if g = [] then None else Some (sum_list vs, length vs)
        | Some (s, n) \<Rightarrow> Some (s + sum_list vs, n + length vs))"
    by (simp add: group_add_apply Let_def split: option.splits)
  finally show ?case .
qed

lemma groupby_mean_eq:
  "groupby_mean rows k =
    (let g = map snd (filter (\<lambda>kv. fst kv = k) rows);
         vs = List.map_filter (\<lambda>y. y) g
     in if g = [] then None
        else if vs = [] then Some None
        else Some (Some (sum_list vs / real (length vs))))"
  by (simp add: groupby_mean_def fold_group_add Let_def)

lemma monthly_averages_eq:
  assumes "recs \<noteq> []"
  shows "monthly_averages recs =
    Inr (\<lambda>m. let kept = filter (\<lambda>r. snd r \<noteq> Some 0 \<and> month (fst r) = m) recs;
             per_day = List.map_filter energy_per_day kept
         in if kept = [] then None
            else if per_day = [] then Some None
            else Some (Some (sum_list per_day / real (length per_day))))"
proof -
  have g: "map snd (filter (\<lambda>kv. fst kv = m)
          (map (\<lambda>r. (month (fst r), energy_per_day r)) (nonzero_records recs))) =
        map energy_per_day (filter (\<lambda>r. snd r \<noteq> Some 0 \<and> month (fst r) = m) recs)" for m
    by (induction recs) (simp_all add: nonzero_records_def)
  have v: "List.map_filter (\<lambda>y. y) (map energy_per_day rs) = List.map_filter energy_per_day rs"
    for rs
    by (induction rs) (simp_all split: option.splits)
  show ?thesis
    using assms by (simp add: monthly_averages_def groupby_mean_eq g v Let_def fun_eq_iff)
qed

subsection \<open>Sums over a slice\<close>

lemma date_less_asym: "date_less a b \<Longrightarrow> \<not> date_less b a"
  by (auto simp add: date_less_def)

lemma date_le_antisym: "date_le a b \<Longrightarrow> date_le b a \<Longrightarrow> a = b"
  using date_less_asym [of a b] by (auto simp add: date_le_def)

lemma loc_sum_absent:
  "d \<notin> fst ` set daily \<Longrightarrow> loc_sum d d daily = 0"
proof (induction daily)
  case Nil
  then show ?case by (simp add: loc_sum_def)
next
  case (Cons r daily)
  then have "fst r \<noteq> d" by auto
  then have "\<not> (date_le d (fst r) \<and> date_le (fst r) d)" using date_le_antisym by blast
  moreover have "loc_sum d d daily = 0" using Cons by simp
  ultimately show ?case by (cases r) (auto simp add: loc_sum_def split: option.splits)
qed

lemma loc_sum_single:
  "distinct (map fst daily) \<Longrightarrow> (d, Some v) \<in> set daily \<Longrightarrow> loc_sum d d daily = v"
proof (induction daily)
  case Nil
  then show ?case by simp
next
  case (Cons r daily)
  show ?case
  proof (cases "r = (d, Some v)")
    case True
    then have "d \<notin> fst ` set daily" using Cons.prems(1) by simp
    then have "loc_sum d d daily = 0" by (rule loc_sum_absent)
    then show ?thesis using True by (simp add: loc_sum_def date_le_def)
  next
    case False
    then have in_tl: "(d, Some v) \<in> set daily" using Cons.prems(2) by simp
    then have "d \<in> fst ` set daily" by force
    then have "fst r \<noteq> d" using Cons.prems(1) by auto
    then have "\<not> (date_le d (fst r) \<and> date_le (fst r) d)" using date_le_antisym by blast
    moreover have "loc_sum d d daily = v" using Cons.prems(1) in_tl by (intro Cons.IH) simp_all
    ultimately show ?thesis by (cases r) (auto simp add: loc_sum_def split: option.splits)
  qed
qed

lemma valid_prev_day: "valid_date d \<Longrightarrow> valid_date (prev_day d)"
proof -
  assume v: "valid_date d"
  have a: "1 \<le> days_in_month (year d) (month d - 1)"
    using days_in_month_bounds [of "year d" "month d - 1"] by linarith
  have b: "days_in_month (year d - 1) 12 = 31"
    by (simp add: days_in_month_def)
  show ?thesis
    using v a b by (simp add: valid_date_def prev_day_def)
qed

lemma sum_list_single_day:
  fixes f :: "date \<Rightarrow> real"
  assumes "distinct ds" "f a = 0"
  shows "(\<Sum>d\<leftarrow>ds. if d = a then c else f d) = (if a \<in> set ds then c else 0) + (\<Sum>d\<leftarrow>ds. f d)"
  using assms(1)
proof (induction ds)
  case Nil
  then show ?case by simp
next
  case (Cons d ds)
  then show ?case using assms(2) by auto
qed

lemma curve_value_at_Cons:
  "curve_value_at ((a, y) # daily) d =
    (if d = a then (case y of Some v \<Rightarrow> v | None \<Rightarrow> 0) else curve_value_at daily d)"
  by (simp add: curve_value_at_def split: option.splits)

lemma curve_value_at_absent: "a \<notin> fst ` set daily \<Longrightarrow> curve_value_at daily a = 0"
  by (simp add: curve_value_at_def map_of_eq_None_iff [THEN iffD2])

lemma loc_sum_Cons:
  "loc_sum lo hi ((a, y) # daily) =
    (if date_le lo a \<and> date_le a hi then (case y of Some v \<Rightarrow> v | None \<Rightarrow> 0) else 0)
      + loc_sum lo hi daily"
  by (simp add: loc_sum_def split: option.splits)

text \<open>
  The sum over a slice of the frame is the sum, over the days of the range, of the value
  of the curve on the day.
\<close>

lemma loc_sum_days:
  assumes "distinct (map fst daily)" "\<forall>r\<in>set daily. valid_date (fst r)"
    "valid_date lo" "valid_date hi"
  shows "loc_sum lo hi daily = (\<Sum>d\<leftarrow>date_range lo hi. curve_value_at daily d)"
  using assms(1,2)
proof (induction daily)
  case Nil
  then show ?case by (simp add: loc_sum_def curve_value_at_def)
next
  case (Cons r daily)
  obtain a y where r: "r = (a, y)" by (cases r)
  have a: "a \<notin> fst ` set daily" and va: "valid_date a" using Cons.prems r by auto
  have IH: "loc_sum lo hi daily = (\<Sum>d\<leftarrow>date_range lo hi. curve_value_at daily d)"
    using Cons.prems by (intro Cons.IH) simp_all
  have mem: "a \<in> set (date_range lo hi) \<longleftrightarrow> date_le lo a \<and> date_le a hi"
    using va assms(3,4) by (simp add: set_date_range)
  have "(\<Sum>d\<leftarrow>date_range lo hi. curve_value_at (r # daily) d)
      = (\<Sum>d\<leftarrow>date_range lo hi.
            if d = a then (case y of Some v \<Rightarrow> v | None \<Rightarrow> 0) else curve_value_at daily d)"
    by (simp only: r curve_value_at_Cons)
  also have "\<dots> = (if a \<in> set (date_range lo hi) then (case y of Some v \<Rightarrow> v | None \<Rightarrow> 0) else 0)
      + (\<Sum>d\<leftarrow>date_range lo hi. curve_value_at daily d)"
    using distinct_date_range [OF assms(3)] curve_value_at_absent [OF a]
    by (rule sum_list_single_day)
  also have "\<dots> = loc_sum lo hi (r # daily)"
    by (simp only: r loc_sum_Cons mem IH)
  finally show ?case by simp
qed

section \<open>Today's overproduction\<close>

text \<open>
  Claim C8: for every production of today and every estimate for today, the extra
  production of today is the maximum of 0 and the production minus the estimate; it is
  never negative, and it is 0 when the production is at most the estimate.
\<close>

theorem today_extra_never_negative:
  "energy_produced_today_extra actual est = max 0 (actual - est)
    \<and> 0 \<le> energy_produced_today_extra actual est
    \<and> (actual \<le> est \<longrightarrow> energy_produced_today_extra actual est = 0)"
  by (simp add: energy_produced_today_extra_def)

theorem today_extra_never_negative_witness:
  "(8::real) \<le> 10 \<and> energy_produced_today_extra 8 10 = 0"
  using today_extra_never_negative [of 8 10] by simp

section \<open>The production start date\<close>

text \<open>
  Claim C6, evaluated on the code: when the caller gives no start date and the provider's
  first date is 2022-02-01, the resolved date is 2022-03-01, one month after the raw date
  although that is the 1st of a month. A start date given by the caller resolves as the
  claim says: 2022-02-01 stays, 2022-01-15 becomes 2022-02-01.
\<close>

theorem derived_start_skips_aligned_month:
  "resolve_startdate_production (data\<lparr>get_data_period := Date 2022 2 1\<rparr>)
      (init_startdate_production None) = Date 2022 3 1
    \<and> resolve_startdate_production data (init_startdate_production (Some (Date 2022 2 1)))
      = Date 2022 2 1
    \<and> resolve_startdate_production data (init_startdate_production (Some (Date 2022 1 15)))
      = Date 2022 2 1"
  by (simp add: resolve_startdate_production_def init_startdate_production_def
      add_relativedelta_def days_in_month_def Let_def)

section \<open>The seasonal averages\<close>

text \<open>
  Claim C4: a monthly record whose energy is 0 is dropped before the averages are taken:
  the averages of a history that holds such a record are the means, per month number, of
  the energy per day of the other records that are not 0. The history of a January with
  0 Wh and a January of an earlier year with 3100 Wh has 3100 / 31 / 1000 kWh per day as
  the average of month 1.
\<close>

theorem zero_month_excluded:
  "\<exists>averages. monthly_averages (xs @ (d, Some 0) # ys) = Inr averages
    \<and> (\<forall>m. averages m =
          (let kept = filter (\<lambda>r. snd r \<noteq> Some 0 \<and> month (fst r) = m) (xs @ ys);
               per_day = List.map_filter energy_per_day kept
           in if kept = [] then None
              else if per_day = [] then Some None
              else Some (Some (sum_list per_day / real (length per_day)))))"
  by (simp add: monthly_averages_eq Let_def)

theorem zero_month_excluded_witness:
  "\<exists>averages. monthly_averages ([] @ (Date 2023 1 1, Some 0) # [(Date 2022 1 1, Some 3100)])
      = Inr averages
    \<and> averages 1 = Some (Some (3100 / 31 / 1000))"
proof -
  from zero_month_excluded [of "[]" "Date 2023 1 1" "[(Date 2022 1 1, Some 3100)]"]
  obtain averages where a:
    "monthly_averages ([] @ (Date 2023 1 1, Some 0) # [(Date 2022 1 1, Some 3100)]) = Inr averages"
    and m: "\<forall>m. averages m =
          (let kept = filter (\<lambda>r. snd r \<noteq> Some 0 \<and> month (fst r) = m)
                        ([] @ [(Date 2022 1 1, Some (3100 :: real))]);
               per_day = List.map_filter energy_per_day kept
           in if kept = [] then None
              else if per_day = [] then Some None
              else Some (Some (sum_list per_day / real (length per_day))))"
    by blast
  from m [rule_format, of 1] have "averages 1 = Some (Some (3100 / 31 / 1000))"
    by (simp add: energy_per_day_def days_in_month_def)
  with a show ?thesis by blast
qed

text \<open>
  Claim C5: the energy per day of a record that is kept is its energy in Wh divided by the
  number of days of its month and then by 1000, and the average of a month number is the
  arithmetic mean of these values over all kept records of that month number (a record
  whose energy is missing has no such value and is skipped); a month number with no kept
  record has no average, and one whose kept records are all missing has a missing average.
\<close>

theorem seasonal_average_is_mean:
  assumes "recs \<noteq> []"
  shows "\<exists>averages. monthly_averages recs = Inr averages \<and>
    (\<forall>m. let kept = filter (\<lambda>r. snd r \<noteq> Some 0 \<and> month (fst r) = m) recs;
             per_day = List.map_filter
               (\<lambda>r. map_option
                  (\<lambda>energy. (energy / of_int (days_in_month (year (fst r)) (month (fst r)))) / 1000)
                  (snd r)) kept
         in averages m = (if kept = [] then None
                          else if per_day = [] then Some None
                          else Some (Some (sum_list per_day / real (length per_day)))))"
  using assms by (simp add: monthly_averages_eq Let_def energy_per_day_def [abs_def])

theorem seasonal_average_is_mean_witness:
  "[(Date 2022 1 1, Some 3100), (Date 2023 1 1, Some 6200), (Date 2023 2 1, Some 2800)] \<noteq> []
   \<and> (\<exists>averages. monthly_averages
          [(Date 2022 1 1, Some 3100), (Date 2023 1 1, Some 6200), (Date 2023 2 1, Some 2800)]
         = Inr averages
       \<and> averages 1 = Some (Some (3 / 20)) \<and> averages 2 = Some (Some (1 / 10))
       \<and> averages 3 = None)"
proof -
  obtain averages where a: "monthly_averages
      [(Date 2022 1 1, Some 3100), (Date 2023 1 1, Some 6200), (Date 2023 2 1, Some 2800)]
      = Inr averages"
    and m: "\<forall>m. let kept = filter (\<lambda>r. snd r \<noteq> Some 0 \<and> month (fst r) = m)
                  [(Date 2022 1 1, Some 3100), (Date 2023 1 1, Some 6200),
                   (Date 2023 2 1, Some (2800 :: real))];
             per_day = List.map_filter
               (\<lambda>r. map_option
                  (\<lambda>energy. (energy / of_int (days_in_month (year (fst r)) (month (fst r)))) / 1000)
                  (snd r)) kept
         in averages m = (if kept = [] then None
                          else if per_day = [] then Some None
                          else Some (Some (sum_list per_day / real (length per_day))))"
    using seasonal_average_is_mean
      [of "[(Date 2022 1 1, Some 3100), (Date 2023 1 1, Some 6200), (Date 2023 2 1, Some 2800)]"]
    by blast
  from m [rule_format, of 1] m [rule_format, of 2] m [rule_format, of 3]
  have "averages 1 = Some (Some (3 / 20))" "averages 2 = Some (Some (1 / 10))" "averages 3 = None"
    by (simp_all add: days_in_month_def isleap_def)
  with a show ?thesis by simp
qed

section \<open>The reconciler\<close>

text \<open>
  Claim C1: for a daily curve with one row per date that holds the value \<open>v\<close> today,
  and the provider's two totals in Wh, the reconciler returns: estimated, the value of
  today plus the sum of the values of the curve over the days from tomorrow to the end
  date; produced, the yearly total divided by 1000; progress, produced minus today's
  total divided by 1000 minus the sum of the values of the curve over the days from the
  start date to yesterday, plus the maximum of 0 and today's total divided by 1000 minus
  the value of today; forecast, estimated plus produced. Each is rounded once, at the
  end, and the rounding gives a nearest integer.
\<close>

theorem reconcile_outputs:
  assumes "distinct (map fst daily)" "\<forall>r\<in>set daily. valid_date (fst r)"
    and "(today, Some v) \<in> set daily"
    and "valid_date startdate" "valid_date enddate"
  shows "reconcile daily startdate enddate today year_wh day_wh =
      \<lparr>produced = py_round (year_wh / 1000),
       estimated = py_round
         (v + (\<Sum>d\<leftarrow>date_range (next_day today) enddate. curve_value_at daily d)),
       forecast = py_round
         ((v + (\<Sum>d\<leftarrow>date_range (next_day today) enddate. curve_value_at daily d))
           + year_wh / 1000),
       progress = py_round
         ((year_wh / 1000 - day_wh / 1000
            - (\<Sum>d\<leftarrow>date_range startdate (prev_day today). curve_value_at daily d))
           + max 0 (day_wh / 1000 - v))\<rparr>
    \<and> (\<forall>x. \<bar>real_of_int (py_round x) - x\<bar> \<le> 1 / 2)"
proof -
  have vt: "valid_date today" using assms(2,3) by force
  have "loc_sum today today daily = v" using assms(1,3) by (rule loc_sum_single)
  moreover have "loc_sum (next_day today) enddate daily
      = (\<Sum>d\<leftarrow>date_range (next_day today) enddate. curve_value_at daily d)"
    using assms(1,2) valid_next_day [OF vt] assms(5) by (rule loc_sum_days)
  moreover have "loc_sum startdate (prev_day today) daily
      = (\<Sum>d\<leftarrow>date_range startdate (prev_day today). curve_value_at daily d)"
    using assms(1,2,4) valid_prev_day [OF vt] by (rule loc_sum_days)
  ultimately show ?thesis
    using py_round_nearest
    by (simp add: reconcile_def Let_def energy_produced_today_extra_def)
qed

theorem reconcile_outputs_witness:
  "distinct (map fst [(Date 2024 3 13, Some (8::real)), (Date 2024 3 14, Some 9), (Date 2024 3 15, Some 10),
      (Date 2024 3 16, Some (21 / 2)), (Date 2024 3 17, Some 11), (Date 2024 3 18, Some 12)])
   \<and> (Date 2024 3 15, Some 10) \<in> set [(Date 2024 3 13, Some (8::real)), (Date 2024 3 14, Some 9),
      (Date 2024 3 15, Some 10), (Date 2024 3 16, Some (21 / 2)), (Date 2024 3 17, Some 11),
      (Date 2024 3 18, Some 12)]
   \<and> valid_date (Date 2024 3 13) \<and> valid_date (Date 2024 3 17)
   \<and> date_range (next_day (Date 2024 3 15)) (Date 2024 3 17) = [Date 2024 3 16, Date 2024 3 17]
   \<and> date_range (Date 2024 3 13) (prev_day (Date 2024 3 15)) = [Date 2024 3 13, Date 2024 3 14]
   \<and> reconcile [(Date 2024 3 13, Some (8::real)), (Date 2024 3 14, Some 9), (Date 2024 3 15, Some 10),
        (Date 2024 3 16, Some (21 / 2)), (Date 2024 3 17, Some 11), (Date 2024 3 18, Some 12)]
        (Date 2024 3 13) (Date 2024 3 17) (Date 2024 3 15) 25000 12000
      = \<lparr>produced = 25, estimated = 32, forecast = 56, progress = - 2\<rparr>"
proof -
  let ?daily = "[(Date 2024 3 13, Some (8::real)), (Date 2024 3 14, Some 9), (Date 2024 3 15, Some 10),
      (Date 2024 3 16, Some (21 / 2)), (Date 2024 3 17, Some 11), (Date 2024 3 18, Some 12)]"
  have d: "distinct (map fst ?daily)" by simp
  have v: "\<forall>r\<in>set ?daily. valid_date (fst r)" by (simp add: valid_date_def days_in_month_def)
  have m: "(Date 2024 3 15, Some 10) \<in> set ?daily" by simp
  have se: "valid_date (Date 2024 3 13)" "valid_date (Date 2024 3 17)"
    by (simp_all add: valid_date_def days_in_month_def)
  have r1: "date_range (next_day (Date 2024 3 15)) (Date 2024 3 17) = [Date 2024 3 16, Date 2024 3 17]"
    by code_simp
  have r2: "date_range (Date 2024 3 13) (prev_day (Date 2024 3 15)) = [Date 2024 3 13, Date 2024 3 14]"
    by code_simp
  have r: "py_round 25 = 25" "py_round (63 / 2) = 32" "py_round (113 / 2) = 56" "py_round (- 2) = - 2"
    by (simp_all add: py_round_def Let_def)
  from reconcile_outputs [OF d v m se, of 25000 12000]
  have "reconcile ?daily (Date 2024 3 13) (Date 2024 3 17) (Date 2024 3 15) 25000 12000
      = \<lparr>produced = 25, estimated = 32, forecast = 56, progress = - 2\<rparr>"
    using r by (simp add: r1 r2 curve_value_at_def)
  with d m se r1 r2 show ?thesis by (intro conjI)
qed

section \<open>The curve that is built\<close>

lemma all_months_seed:
  assumes "valid_date s" "\<forall>m\<in>{1..12}. averages m \<noteq> None"
    "d \<in> set (date_range (padded_start s) (padded_end e))"
  shows "average averages d \<noteq> Inl KeyError"
proof -
  have "valid_date d"
    using valid_padded_start [OF assms(1)] assms(3) by (rule date_range_valid)
  then have "month d \<in> {1..12}" by (simp add: valid_date_def)
  with assms(2) have "averages (month d) \<noteq> None" by blast
  then show ?thesis by (simp add: average_KeyError_iff)
qed


lemma daily_curve_Inr:
  assumes "\<forall>d\<in>set (date_range (padded_start s) (padded_end e)). average averages d \<noteq> Inl KeyError"
  shows "daily_curve averages s e =
    Inr (zip (date_range (padded_start s) (padded_end e))
          (interpolate (map (\<lambda>d. projr (average averages d))
             (date_range (padded_start s) (padded_end e)))))"
  using assms by (simp add: daily_curve_eq)

lemma daily_curve_InrD:
  assumes "daily_curve averages s e = Inr daily"
  shows "map fst daily = date_range (padded_start s) (padded_end e)"
    and "map snd daily = interpolate (map (\<lambda>d. projr (average averages d))
             (date_range (padded_start s) (padded_end e)))"
    and "\<forall>d\<in>set (date_range (padded_start s) (padded_end e)). average averages d \<noteq> Inl KeyError"
proof -
  let ?dates = "date_range (padded_start s) (padded_end e)"
  let ?ys = "interpolate (map (\<lambda>d. projr (average averages d)) ?dates)"
  from assms have nm: "\<not> (\<exists>d\<in>set ?dates. average averages d = Inl KeyError)"
    and eq: "daily = zip ?dates ?ys"
    by (auto simp add: daily_curve_eq split: if_splits)
  have len: "length ?ys = length ?dates" by (simp add: length_interpolate)
  show "map fst daily = ?dates" using eq len by simp
  show "map snd daily = ?ys" using eq len by simp
  show "\<forall>d\<in>set ?dates. average averages d \<noteq> Inl KeyError" using nm by auto
qed

text \<open>The seed of a day whose lookup succeeds.\<close>

lemma seed_eq_iff:
  assumes "average averages d \<noteq> Inl KeyError"
  shows "projr (average averages d) = y \<longleftrightarrow> average averages d = Inr y"
  using average_Inr [OF assms] by (metis sum.sel(2))

lemma seeds_nth_iff:
  assumes "\<forall>d\<in>set dates. average averages d \<noteq> Inl KeyError" "j < length dates"
  shows "map (\<lambda>d. projr (average averages d)) dates ! j = y
    \<longleftrightarrow> average averages (dates ! j) = Inr y"
proof -
  have "average averages (dates ! j) \<noteq> Inl KeyError" using assms by simp
  from seed_eq_iff [OF this] assms(2) show ?thesis by simp
qed


section \<open>The seeds of the curve\<close>

text \<open>
  Claim C2: when the averages hold a number for all 12 month numbers, for every start and
  end date and every 15th of a month \<open>x\<close> in the padded range, the curve is built and its
  value on \<open>x\<close> is the average of the month number of \<open>x\<close>, and nothing else.
\<close>

theorem curve_at_fifteenth:
  assumes "\<forall>m\<in>{1..12}. \<exists>a. averages m = Some (Some a)"
    and "valid_date startdate" "valid_date enddate"
    and "valid_date x" "day x = 15"
    and "date_le (padded_start startdate) x" "date_le x (padded_end enddate)"
  shows "\<exists>daily. daily_curve averages startdate enddate = Inr daily
    \<and> (\<exists>a. averages (month x) = Some (Some a))
    \<and> (\<forall>v. (x, v) \<in> set daily \<longleftrightarrow> Some v = averages (month x))"
proof -
  let ?dates = "date_range (padded_start startdate) (padded_end enddate)"
  let ?seeds = "map (\<lambda>d. projr (average averages d)) ?dates"
  let ?daily = "zip ?dates (interpolate ?seeds)"
  have x: "x \<in> set ?dates"
    using assms(2-4,6,7) by (simp add: set_date_range valid_padded_start valid_padded_end)
  have all12: "\<forall>m\<in>{1..12}. averages m \<noteq> None" using assms(1) by fastforce
  have seed: "\<forall>d\<in>set ?dates. average averages d \<noteq> Inl KeyError"
    using all_months_seed [OF assms(2) all12] by blast
  then have curve: "daily_curve averages startdate enddate = Inr ?daily"
    by (rule daily_curve_Inr)
  have "month x \<in> {1..12}" using assms(4) by (simp add: valid_date_def)
  with assms(1) obtain a where a: "averages (month x) = Some (Some a)" by blast
  from x obtain k where k: "k < length ?dates" "?dates ! k = x"
    by (auto simp add: in_set_conv_nth)
  have dist: "distinct ?dates"
    using valid_padded_start [OF assms(2)] by (rule distinct_date_range)
  have "average averages x = Inr (Some a)" using a assms(5) by (simp add: average_value_iff)
  then have "?seeds ! k = Some a" using seeds_nth_iff [OF seed k(1)] k(2) by simp
  then have ik: "interpolate ?seeds ! k = Some a"
    using k(1) by (intro interpolate_keeps) simp_all
  have "(x, v) \<in> set ?daily \<longleftrightarrow> v = Some a" for v
  proof
    assume "(x, v) \<in> set ?daily"
    then obtain j where j: "j < length ?dates" "?dates ! j = x" "interpolate ?seeds ! j = v"
      by (auto simp add: in_set_zip)
    then have "j = k" using k dist nth_eq_iff_index_eq by blast
    then show "v = Some a" using j(3) ik by simp
  next
    assume "v = Some a"
    then show "(x, v) \<in> set ?daily"
      using k ik by (auto simp add: in_set_zip length_interpolate)
  qed
  then have "\<forall>v. (x, v) \<in> set ?daily \<longleftrightarrow> Some v = averages (month x)"
    using a by auto
  with curve a show ?thesis by blast
qed

theorem curve_at_fifteenth_witness:
  "valid_date (Date 2024 3 1) \<and> valid_date (Date 2024 3 31) \<and> valid_date (Date 2024 4 15)
    \<and> date_le (padded_start (Date 2024 3 1)) (Date 2024 4 15)
    \<and> date_le (Date 2024 4 15) (padded_end (Date 2024 3 31))
    \<and> (\<exists>daily. daily_curve (\<lambda>m. Some (Some (real_of_int m))) (Date 2024 3 1) (Date 2024 3 31)
          = Inr daily
        \<and> (\<forall>v. (Date 2024 4 15, v) \<in> set daily \<longleftrightarrow> v = Some 4))"
proof -
  have h: "\<forall>m\<in>{1..12}. \<exists>a. (\<lambda>m. Some (Some (real_of_int m))) m = Some (Some a)"
    "valid_date (Date 2024 3 1)" "valid_date (Date 2024 3 31)" "valid_date (Date 2024 4 15)"
    "day (Date 2024 4 15) = 15"
    "date_le (padded_start (Date 2024 3 1)) (Date 2024 4 15)"
    "date_le (Date 2024 4 15) (padded_end (Date 2024 3 31))"
    by (simp_all add: valid_date_def days_in_month_def date_le_def date_less_def padded_start_def
        padded_end_def add_relativedelta_def Let_def)
  from curve_at_fifteenth [OF h] h show ?thesis by simp
qed

section \<open>Every day of the padded range has a value\<close>




section \<open>A month number that is missing\<close>

text \<open>
  Claim C7, as the code has it: for a requested range of at least one day, the seeding
  raises \<open>KeyError\<close> exactly when the averages have no entry for the month number of some
  15th of a month in the padded range, and then the whole computation returns that error
  and no forecast; when every such month number has an entry, the curve is built and the
  computation returns a forecast. An entry that is a missing average raises no error: the
  seed of its 15th is left empty.
\<close>

theorem seeding_raises_on_missing_month:
  assumes "valid_date startdate" "valid_date enddate" "date_le startdate enddate"
  shows "(daily_curve averages startdate enddate = Inl KeyError
      \<longleftrightarrow> (\<exists>x. valid_date x \<and> day x = 15 \<and> date_le (padded_start startdate) x
             \<and> date_le x (padded_end enddate) \<and> averages (month x) = None))
    \<and> (daily_curve averages startdate enddate \<noteq> Inl KeyError
      \<longrightarrow> (\<exists>daily. daily_curve averages startdate enddate = Inr daily))
    \<and> (monthly_averages (get_energy data (resolve_startdate_production data sp)
              (prev_day (Date (year now) (month now) 1))) = Inr averages
      \<longrightarrow> (daily_curve averages startdate enddate = Inl KeyError
            \<longrightarrow> get_solar_forecast data now startdate enddate sp = Inl KeyError)
        \<and> (daily_curve averages startdate enddate \<noteq> Inl KeyError
            \<longrightarrow> (\<exists>result. get_solar_forecast data now startdate enddate sp = Inr result)))
    \<and> (\<forall>x. day x = 15 \<and> averages (month x) = Some None \<longrightarrow> average averages x = Inr None)"
proof -
  let ?dates = "date_range (padded_start startdate) (padded_end enddate)"
  have set: "set ?dates = {x. valid_date x \<and> date_le (padded_start startdate) x
      \<and> date_le x (padded_end enddate)}"
    using assms(1,2) by (simp add: set_date_range valid_padded_start valid_padded_end)
  have "daily_curve averages startdate enddate = Inl KeyError
      \<longleftrightarrow> (\<exists>d\<in>set ?dates. day d = 15 \<and> averages (month d) = None)"
    by (simp add: daily_curve_eq average_KeyError_iff)
  also have "\<dots> \<longleftrightarrow> (\<exists>x. valid_date x \<and> day x = 15 \<and> date_le (padded_start startdate) x
             \<and> date_le x (padded_end enddate) \<and> averages (month x) = None)"
    unfolding set by auto
  finally have 1: "daily_curve averages startdate enddate = Inl KeyError
      \<longleftrightarrow> (\<exists>x. valid_date x \<and> day x = 15 \<and> date_le (padded_start startdate) x
             \<and> date_le x (padded_end enddate) \<and> averages (month x) = None)" .
  have 2: "daily_curve averages startdate enddate \<noteq> Inl KeyError
      \<longrightarrow> (\<exists>daily. daily_curve averages startdate enddate = Inr daily)"
    by (simp add: daily_curve_eq)
  have 3: "monthly_averages (get_energy data (resolve_startdate_production data sp)
              (prev_day (Date (year now) (month now) 1))) = Inr averages
      \<longrightarrow> (daily_curve averages startdate enddate = Inl KeyError
            \<longrightarrow> get_solar_forecast data now startdate enddate sp = Inl KeyError)
        \<and> (daily_curve averages startdate enddate \<noteq> Inl KeyError
            \<longrightarrow> (\<exists>result. get_solar_forecast data now startdate enddate sp = Inr result))"
  proof (intro impI conjI)
    assume m: "monthly_averages (get_energy data (resolve_startdate_production data sp)
              (prev_day (Date (year now) (month now) 1))) = Inr averages"
    {
      assume "daily_curve averages startdate enddate = Inl KeyError"
      with m show "get_solar_forecast data now startdate enddate sp = Inl KeyError"
        by (simp add: get_solar_forecast_def Let_def)
    }
    {
      assume "daily_curve averages startdate enddate \<noteq> Inl KeyError"
      with 2 obtain daily where "daily_curve averages startdate enddate = Inr daily" by blast
      with m show "\<exists>result. get_solar_forecast data now startdate enddate sp = Inr result"
        by (simp add: get_solar_forecast_def Let_def)
    }
  qed
  have 4: "\<forall>x. day x = 15 \<and> averages (month x) = Some None \<longrightarrow> average averages x = Inr None"
    by (simp add: average_def)
  from 1 2 3 4 show ?thesis by (intro conjI)
qed

theorem seeding_raises_on_missing_month_witness:
  "valid_date (Date 2024 3 1) \<and> valid_date (Date 2024 3 31)
    \<and> date_le (Date 2024 3 1) (Date 2024 3 31)
    \<and> valid_date (Date 2024 3 15) \<and> date_le (padded_start (Date 2024 3 1)) (Date 2024 3 15)
    \<and> date_le (Date 2024 3 15) (padded_end (Date 2024 3 31))
    \<and> (Map.empty(1 \<mapsto> Some 10, 2 \<mapsto> None) :: int \<rightharpoonup> real option) (month (Date 2024 3 15)) = None
    \<and> daily_curve (Map.empty(1 \<mapsto> Some 10, 2 \<mapsto> None)) (Date 2024 3 1) (Date 2024 3 31)
        = Inl KeyError
    \<and> average (Map.empty(1 \<mapsto> Some 10, 2 \<mapsto> None)) (Date 2024 2 15) = Inr None"
proof -
  have h: "valid_date (Date 2024 3 1)" "valid_date (Date 2024 3 31)"
    "date_le (Date 2024 3 1) (Date 2024 3 31)"
    by (simp_all add: valid_date_def days_in_month_def date_le_def date_less_def)
  have x: "valid_date (Date 2024 3 15) \<and> day (Date 2024 3 15) = 15
    \<and> date_le (padded_start (Date 2024 3 1)) (Date 2024 3 15)
    \<and> date_le (Date 2024 3 15) (padded_end (Date 2024 3 31))
    \<and> (Map.empty(1 \<mapsto> Some 10, 2 \<mapsto> None) :: int \<rightharpoonup> real option) (month (Date 2024 3 15)) = None"
    by (simp add: valid_date_def days_in_month_def date_le_def date_less_def padded_start_def
        padded_end_def add_relativedelta_def Let_def)
  have y: "day (Date 2024 2 15) = 15
    \<and> (Map.empty(1 \<mapsto> Some 10, 2 \<mapsto> None) :: int \<rightharpoonup> real option) (month (Date 2024 2 15)) = Some None"
    by simp
  note t = seeding_raises_on_missing_month [OF h, of "Map.empty(1 \<mapsto> Some 10, 2 \<mapsto> None)"]
  from t [THEN conjunct1] x
  have 1: "daily_curve (Map.empty(1 \<mapsto> Some 10, 2 \<mapsto> None)) (Date 2024 3 1) (Date 2024 3 31)
      = Inl KeyError"
    by blast
  have "\<forall>x. day x = 15
      \<and> (Map.empty(1 \<mapsto> Some 10, 2 \<mapsto> None) :: int \<rightharpoonup> real option) (month x) = Some None
      \<longrightarrow> average (Map.empty(1 \<mapsto> Some 10, 2 \<mapsto> None)) x = Inr None"
    by (rule t [THEN conjunct2, THEN conjunct2, THEN conjunct2])
  with y have 2: "average (Map.empty(1 \<mapsto> Some 10, 2 \<mapsto> None)) (Date 2024 2 15) = Inr None"
    by blast
  from h x 1 2 show ?thesis by simp
qed

theorem missing_month_counterexample:
  "get_solar_forecast provider_two_months (Date 2024 3 15) (Date 2024 3 1) (Date 2024 3 31) None
    = Inl KeyError"
  by code_simp

text \<open>
  A month the provider reports as \<open>null\<close> is another matter: its average is a missing
  value, the lookup succeeds, the 15th of March is left empty and filled from the 15ths of
  February and April, and a forecast is returned.
\<close>

lemma null_month_is_filled:
  "get_solar_forecast provider_null_march (Date 2024 3 15) (Date 2024 3 1) (Date 2024 3 31) None
    = Inr \<lparr>produced = 450, estimated = 170, forecast = 620, progress = 300\<rparr>"
  by code_simp

section \<open>The curve stays between its seeds\<close>

text \<open>
  Claim C10: for a requested range of at least one day, when one of the averages seeded
  on the 15ths of the padded range is a number, every row of the curve that is built has
  a value, and it lies between the least and the greatest of these averages. One of them
  is a number whenever none of them is a missing value.
\<close>

theorem curve_between_seed_extremes:
  assumes "valid_date startdate" "valid_date enddate" "date_le startdate enddate"
    and "daily_curve averages startdate enddate = Inr daily" "r \<in> set daily"
  shows "({a. \<exists>d\<in>set (map fst daily). day d = 15 \<and> averages (month d) = Some (Some a)} \<noteq> {}
      \<longrightarrow> (\<exists>v. snd r = Some v
        \<and> Min {a. \<exists>d\<in>set (map fst daily). day d = 15 \<and> averages (month d) = Some (Some a)} \<le> v
        \<and> v \<le> Max {a. \<exists>d\<in>set (map fst daily). day d = 15 \<and> averages (month d) = Some (Some a)}))
    \<and> ((\<forall>d\<in>set (map fst daily). day d = 15 \<longrightarrow> averages (month d) \<noteq> Some None)
      \<longrightarrow> {a. \<exists>d\<in>set (map fst daily). day d = 15 \<and> averages (month d) = Some (Some a)} \<noteq> {})"
proof -
  let ?dates = "date_range (padded_start startdate) (padded_end enddate)"
  let ?seeds = "map (\<lambda>d. projr (average averages d)) ?dates"
  let ?S = "{a. \<exists>d\<in>set ?dates. day d = 15 \<and> averages (month d) = Some (Some a)}"
  note D = daily_curve_InrD [OF assms(4)]
  note sn = seeds_nth_iff [OF D(3)]
  have fin: "finite ?S"
  proof -
    have "?S \<subseteq> (\<lambda>d. the (the (averages (month d)))) ` set ?dates" by force
    then show ?thesis by (rule finite_subset) simp
  qed
  have seedS: "v \<in> ?S" if "j < length ?dates" "?seeds ! j = Some v" for j v
  proof -
    have "average averages (?dates ! j) = Inr (Some v)"
      by (rule sn [OF that(1), THEN iffD1, OF that(2)])
    then have "day (?dates ! j) = 15 \<and> averages (month (?dates ! j)) = Some (Some v)"
      by (simp add: average_value_iff)
    moreover have "?dates ! j \<in> set ?dates" using that(1) by simp
    ultimately show ?thesis by blast
  qed
  from assms(5) obtain i where i: "i < length daily" "daily ! i = r"
    by (auto simp add: in_set_conv_nth)
  then have il: "i < length ?dates" using D(1) by (metis length_map)
  then have ils: "i < length ?seeds" by simp
  have "snd r = map snd daily ! i" using i by simp
  then have r: "snd r = interpolate ?seeds ! i" by (simp only: D(2))
  have 1: "?S \<noteq> {} \<longrightarrow> (\<exists>v. snd r = Some v \<and> Min ?S \<le> v \<and> v \<le> Max ?S)"
  proof
    assume "?S \<noteq> {}"
    then obtain a d where d: "d \<in> set ?dates" "day d = 15" "averages (month d) = Some (Some a)"
      by blast
    then obtain k where k: "k < length ?dates" "?dates ! k = d"
      by (auto simp add: in_set_conv_nth)
    have "average averages (?dates ! k) = Inr (Some a)"
      using d(2,3) k(2) by (simp add: average_value_iff)
    then have "?seeds ! k = Some a" using sn [OF k(1)] by simp
    with valid_points_nonempty [of k ?seeds a] k(1) have pts: "valid_points ?seeds \<noteq> []"
      by simp
    have bounds: "\<forall>j<length ?seeds. \<forall>v. ?seeds ! j = Some v \<longrightarrow> Min ?S \<le> v \<and> v \<le> Max ?S"
    proof (intro allI impI)
      fix j v assume j: "j < length ?seeds" and v: "?seeds ! j = Some v"
      from j have "j < length ?dates" by simp
      from this v have "v \<in> ?S" by (rule seedS)
      with fin show "Min ?S \<le> v \<and> v \<le> Max ?S" by simp
    qed
    from interpolate_bounds [OF pts ils bounds] r
    show "\<exists>v. snd r = Some v \<and> Min ?S \<le> v \<and> v \<le> Max ?S" by simp
  qed
  have 3: "(\<forall>d\<in>set ?dates. day d = 15 \<longrightarrow> averages (month d) \<noteq> Some None) \<longrightarrow> ?S \<noteq> {}"
  proof
    assume nn: "\<forall>d\<in>set ?dates. day d = 15 \<longrightarrow> averages (month d) \<noteq> Some None"
    let ?x = "Date (year startdate) (month startdate) 15"
    have x: "?x \<in> set ?dates" using assms(1-3) by (rule fifteenth_in_padded_range)
    with D(3) have "average averages ?x \<noteq> Inl KeyError" by blast
    then have "averages (month ?x) \<noteq> None" by (simp add: average_KeyError_iff)
    moreover have "averages (month ?x) \<noteq> Some None" using nn x by force
    ultimately obtain a where "averages (month ?x) = Some (Some a)" by auto
    moreover have "day ?x = 15" by simp
    ultimately have "\<exists>d\<in>set ?dates. day d = 15 \<and> averages (month d) = Some (Some a)"
      using x by (intro bexI [of _ ?x] conjI)
    then have "a \<in> ?S" by (rule CollectI)
    then show "?S \<noteq> {}" by blast
  qed
  from 1 3 show ?thesis by (simp only: D(1))
qed

theorem curve_between_seed_extremes_witness:
  "valid_date (Date 2024 3 1) \<and> valid_date (Date 2024 3 31)
    \<and> date_le (Date 2024 3 1) (Date 2024 3 31)
    \<and> (\<exists>daily. daily_curve (\<lambda>m. Some (Some (real_of_int m))) (Date 2024 3 1) (Date 2024 3 31)
          = Inr daily
        \<and> daily \<noteq> []
        \<and> (\<forall>r\<in>set daily. \<exists>v. snd r = Some v
            \<and> Min {a. \<exists>d\<in>set (map fst daily). day d = 15
                    \<and> Some (Some (real_of_int (month d))) = Some (Some a)} \<le> v
            \<and> v \<le> Max {a. \<exists>d\<in>set (map fst daily). day d = 15
                    \<and> Some (Some (real_of_int (month d))) = Some (Some a)}))"
proof -
  have h: "valid_date (Date 2024 3 1)" "valid_date (Date 2024 3 31)"
    "date_le (Date 2024 3 1) (Date 2024 3 31)"
    by (simp_all add: valid_date_def days_in_month_def date_le_def date_less_def)
  define dates where "dates = date_range (padded_start (Date 2024 3 1)) (padded_end (Date 2024 3 31))"
  define daily where "daily = zip dates
      (interpolate (map (\<lambda>d. projr (average (\<lambda>m. Some (Some (real_of_int m))) d)) dates))"
  have "\<forall>d\<in>set (date_range (padded_start (Date 2024 3 1)) (padded_end (Date 2024 3 31))).
      average (\<lambda>m. Some (Some (real_of_int m))) d \<noteq> Inl KeyError"
    by (simp add: average_KeyError_iff)
  then have c: "daily_curve (\<lambda>m. Some (Some (real_of_int m))) (Date 2024 3 1) (Date 2024 3 31)
      = Inr daily"
    unfolding daily_def dates_def by (rule daily_curve_Inr)
  have "dates \<noteq> []" unfolding dates_def using h by (rule padded_range_nonempty)
  then have "interpolate (map (\<lambda>d. projr (average (\<lambda>m. Some (Some (real_of_int m))) d)) dates) \<noteq> []"
    using length_interpolate
      [of "map (\<lambda>d. projr (average (\<lambda>m. Some (Some (real_of_int m))) d)) dates"]
    by (metis length_0_conv length_map)
  with \<open>dates \<noteq> []\<close> have ne: "daily \<noteq> []"
    unfolding daily_def by (simp only: zip_eq_Nil_iff de_Morgan_disj simp_thms)
  have "\<exists>v. snd r = Some v
      \<and> Min {a. \<exists>d\<in>set (map fst daily). day d = 15
              \<and> Some (Some (real_of_int (month d))) = Some (Some a)} \<le> v
      \<and> v \<le> Max {a. \<exists>d\<in>set (map fst daily). day d = 15
              \<and> Some (Some (real_of_int (month d))) = Some (Some a)}"
    if "r \<in> set daily" for r
  proof -
    note t = curve_between_seed_extremes [OF h c that]
    have ne: "{a. \<exists>d\<in>set (map fst daily). day d = 15
        \<and> (\<lambda>m. Some (Some (real_of_int m))) (month d) = Some (Some a)} \<noteq> {}"
      by (rule t [THEN conjunct2, THEN mp]) simp
    from t [THEN conjunct1, THEN mp, OF ne] show ?thesis .
  qed
  then have "\<forall>r\<in>set daily. \<exists>v. snd r = Some v
      \<and> Min {a. \<exists>d\<in>set (map fst daily). day d = 15
              \<and> Some (Some (real_of_int (month d))) = Some (Some a)} \<le> v
      \<and> v \<le> Max {a. \<exists>d\<in>set (map fst daily). day d = 15
              \<and> Some (Some (real_of_int (month d))) = Some (Some a)}"
    by (rule ballI)
  with c ne have "\<exists>daily. daily_curve (\<lambda>m. Some (Some (real_of_int m))) (Date 2024 3 1) (Date 2024 3 31)
          = Inr daily
        \<and> daily \<noteq> []
        \<and> (\<forall>r\<in>set daily. \<exists>v. snd r = Some v
            \<and> Min {a. \<exists>d\<in>set (map fst daily). day d = 15
                    \<and> Some (Some (real_of_int (month d))) = Some (Some a)} \<le> v
            \<and> v \<le> Max {a. \<exists>d\<in>set (map fst daily). day d = 15
                    \<and> Some (Some (real_of_int (month d))) = Some (Some a)})"
    by (intro exI conjI)
  with h show ?thesis by (intro conjI)
qed

section \<open>Constant averages\<close>

lemma filter_upto_interval:
  fixes A B l h :: int
  assumes "A \<le> l" "h \<le> B"
  shows "filter (\<lambda>k. l \<le> k \<and> k \<le> h) [A..B] = [l..h]"
proof (rule sorted_distinct_set_unique)
  show "sorted (filter (\<lambda>k. l \<le> k \<and> k \<le> h) [A..B])" by (rule sorted_wrt_filter) simp
  show "distinct (filter (\<lambda>k. l \<le> k \<and> k \<le> h) [A..B])" by simp
  show "sorted [l..h]" by simp
  show "distinct [l..h]" by simp
  show "set (filter (\<lambda>k. l \<le> k \<and> k \<le> h) [A..B]) = set [l..h]" using assms by auto
qed

lemma count_days_between:
  assumes "valid_date a" "valid_date b" "valid_date lo" "valid_date hi"
    "date_le a lo" "date_le hi b"
  shows "length (filter (\<lambda>d. date_le lo d \<and> date_le d hi) (date_range a b))
    = nat (toordinal hi - toordinal lo + 1)"
proof -
  have "filter (\<lambda>d. date_le lo d \<and> date_le d hi) (date_range a b)
      = filter ((\<lambda>k. toordinal lo \<le> k \<and> k \<le> toordinal hi) \<circ> toordinal) (date_range a b)"
  proof (rule filter_cong [OF refl])
    fix d assume "d \<in> set (date_range a b)"
    with assms(1) have "valid_date d" by (rule date_range_valid)
    then show "(date_le lo d \<and> date_le d hi)
        = ((\<lambda>k. toordinal lo \<le> k \<and> k \<le> toordinal hi) \<circ> toordinal) d"
      using assms(3,4) by (simp add: toordinal_le_iff)
  qed
  then have "length (filter (\<lambda>d. date_le lo d \<and> date_le d hi) (date_range a b))
      = length (filter (\<lambda>k. toordinal lo \<le> k \<and> k \<le> toordinal hi)
          (map toordinal (date_range a b)))"
    by (simp add: filter_map)
  also have "\<dots> = length (filter (\<lambda>k. toordinal lo \<le> k \<and> k \<le> toordinal hi)
      [toordinal a .. toordinal b])"
    using assms(1) by (simp only: toordinal_date_range)
  also have "\<dots> = length [toordinal lo .. toordinal hi]"
    using assms by (subst filter_upto_interval) (simp_all add: toordinal_le_iff)
  finally show ?thesis by simp
qed

lemma loc_sum_constant:
  assumes "\<forall>r\<in>set daily. snd r = Some X"
  shows "loc_sum lo hi daily
    = X * real (length (filter (\<lambda>d. date_le lo d \<and> date_le d hi) (map fst daily)))"
  using assms
proof (induction daily)
  case Nil
  then show ?case by (simp add: loc_sum_def)
next
  case (Cons r daily)
  then have "loc_sum lo hi daily
      = X * real (length (filter (\<lambda>d. date_le lo d \<and> date_le d hi) (map fst daily)))"
    by simp
  moreover have "snd r = Some X" using Cons.prems by simp
  ultimately show ?case
    by (cases r) (simp add: loc_sum_def algebra_simps)
qed

lemma interpolate_constant:
  assumes "valid_points ys \<noteq> []" "i < length ys"
    and "\<forall>j<length ys. \<forall>v. ys ! j = Some v \<longrightarrow> v = X"
  shows "interpolate ys ! i = Some X"
proof -
  have "\<forall>j<length ys. \<forall>v. ys ! j = Some v \<longrightarrow> X \<le> v \<and> v \<le> X" using assms(3) by simp
  with assms(1,2) have "\<exists>v. interpolate ys ! i = Some v \<and> X \<le> v \<and> v \<le> X"
    by (rule interpolate_bounds)
  then show ?thesis by auto
qed

lemma date_less_next_day: "date_less d (next_day d)"
  by (simp add: next_day_def date_less_def)

text \<open>
  Claim C9, as the code has it: when the average is \<open>X\<close> for all 12 month numbers, every
  day of the curve has the value \<open>X\<close>, and for a day \<open>today\<close> within the requested range
  the estimated energy is \<open>X\<close> times the number of days from today to the end date,
  rounded; on the first day of the range that is \<open>X\<close> times the number of days of the
  range.
\<close>

theorem constant_averages_constant_curve:
  assumes "valid_date startdate" "valid_date enddate" "valid_date today"
    and "date_le startdate today" "date_le today enddate"
    and "\<forall>m\<in>{1..12}. averages m = Some (Some X)"
  shows "\<exists>daily. daily_curve averages startdate enddate = Inr daily
    \<and> (\<forall>r\<in>set daily. snd r = Some X)
    \<and> estimated (reconcile daily startdate enddate today year_wh day_wh)
        = py_round (X * real (length (date_range today enddate)))
    \<and> estimated (reconcile daily startdate enddate startdate year_wh day_wh)
        = py_round (X * real (length (date_range startdate enddate)))"
proof -
  let ?a = "padded_start startdate" and ?b = "padded_end enddate"
  let ?dates = "date_range ?a ?b"
  let ?seeds = "map (\<lambda>d. projr (average averages d)) ?dates"
  let ?daily = "zip ?dates (interpolate ?seeds)"
  have va: "valid_date ?a" and vb: "valid_date ?b"
    using assms(1,2) by (simp_all add: valid_padded_start valid_padded_end)
  have se: "date_le startdate enddate"
    using assms(1,3,2,4,5) by (rule date_le_trans)
  have all12: "\<forall>m\<in>{1..12}. averages m \<noteq> None" using assms(6) by simp
  have seed: "\<forall>d\<in>set ?dates. average averages d \<noteq> Inl KeyError"
    using all_months_seed [OF assms(1) all12] by blast
  then have curve: "daily_curve averages startdate enddate = Inr ?daily"
    by (rule daily_curve_Inr)
  note sn = seeds_nth_iff [OF seed]
  have len: "length (interpolate ?seeds) = length ?dates" by (simp add: length_interpolate)
  have fst: "map fst ?daily = ?dates" using len by simp
  have pts: "valid_points ?seeds \<noteq> []"
  proof -
    let ?x = "Date (year startdate) (month startdate) 15"
    have x: "?x \<in> set ?dates" using assms(1,2) se by (rule fifteenth_in_padded_range)
    then obtain k where k: "k < length ?dates" "?dates ! k = ?x"
      by (auto simp add: in_set_conv_nth)
    have "month ?x \<in> {1..12}" using assms(1) by (simp add: valid_date_def)
    with assms(6) have "averages (month ?x) = Some (Some X)" by blast
    then have "average averages (?dates ! k) = Inr (Some X)"
      using k(2) by (simp add: average_value_iff)
    then have "?seeds ! k = Some X" using sn [OF k(1)] by simp
    with valid_points_nonempty [of k ?seeds X] k(1) show ?thesis by simp
  qed
  have seedsX: "\<forall>j<length ?seeds. \<forall>v. ?seeds ! j = Some v \<longrightarrow> v = X"
  proof (intro allI impI)
    fix j v assume j: "j < length ?seeds" and v: "?seeds ! j = Some v"
    then have jl: "j < length ?dates" by simp
    then have "?dates ! j \<in> set ?dates" by simp
    with va have "valid_date (?dates ! j)" by (rule date_range_valid)
    then have "averages (month (?dates ! j)) = Some (Some X)"
      using assms(6) by (simp add: valid_date_def)
    moreover have "average averages (?dates ! j) = Inr (Some v)"
      by (rule sn [OF jl, THEN iffD1, OF v])
    ultimately show "v = X" by (simp add: average_value_iff)
  qed
  have allX: "\<forall>r\<in>set ?daily. snd r = Some X"
  proof
    fix r assume "r \<in> set ?daily"
    then obtain i where i: "i < length ?dates" "r = (?dates ! i, interpolate ?seeds ! i)"
      by (auto simp add: in_set_zip)
    have "interpolate ?seeds ! i = Some X"
      using pts _ seedsX by (rule interpolate_constant) (use i in simp)
    with i show "snd r = Some X" by simp
  qed
  have e_le_b: "date_le enddate ?b"
    using padded_end_greater [OF assms(2)] by (simp add: date_le_def)
  have a_le_s: "date_le ?a startdate"
    using padded_start_less [OF assms(1)] by (simp add: date_le_def)
  have est: "estimated (reconcile ?daily startdate enddate t year_wh day_wh)
        = py_round (X * real (length (date_range t enddate)))"
    if vt: "valid_date t" and st: "date_le startdate t" and te: "date_le t enddate" for t
  proof -
    have a_le_t: "date_le ?a t"
      using va assms(1) vt a_le_s st by (rule date_le_trans)
    have vn: "valid_date (next_day t)" using vt by (rule valid_next_day)
    have a_le_next: "date_le ?a (next_day t)"
    proof -
      have "date_le t (next_day t)" using date_less_next_day by (simp add: date_le_def)
      with va vt vn a_le_t show ?thesis by (rule date_le_trans)
    qed
    have "loc_sum t t ?daily
        = X * real (length (filter (\<lambda>d. date_le t d \<and> date_le d t) (map fst ?daily)))"
      using allX by (rule loc_sum_constant)
    also have "\<dots> = X * real (length (filter (\<lambda>d. date_le t d \<and> date_le d t) ?dates))"
      by (simp only: fst)
    also have "length (filter (\<lambda>d. date_le t d \<and> date_le d t) ?dates)
        = nat (toordinal t - toordinal t + 1)"
    proof (rule count_days_between [OF va vb vt vt a_le_t])
      show "date_le t ?b" using vt assms(2) vb te e_le_b by (rule date_le_trans)
    qed
    finally have today_sum: "loc_sum t t ?daily = X" by simp
    have "loc_sum (next_day t) enddate ?daily
        = X * real (length (filter (\<lambda>d. date_le (next_day t) d \<and> date_le d enddate)
            (map fst ?daily)))"
      using allX by (rule loc_sum_constant)
    also have "\<dots> = X * real (length (filter (\<lambda>d. date_le (next_day t) d \<and> date_le d enddate)
        ?dates))"
      by (simp only: fst)
    also have "length (filter (\<lambda>d. date_le (next_day t) d \<and> date_le d enddate) ?dates)
        = nat (toordinal enddate - toordinal (next_day t) + 1)"
      using va vb vn assms(2) a_le_next e_le_b by (rule count_days_between)
    also have "\<dots> = nat (toordinal enddate - toordinal t)"
      using vt by (simp add: toordinal_next_day)
    finally have future_sum: "loc_sum (next_day t) enddate ?daily
        = X * real (nat (toordinal enddate - toordinal t))" .
    have le: "toordinal t \<le> toordinal enddate"
      using assms(2) vt te by (simp add: toordinal_le_iff)
    then have "real (length (date_range t enddate))
        = 1 + real (nat (toordinal enddate - toordinal t))"
      by (simp add: length_date_range nat_add_distrib)
    then have "loc_sum t t ?daily + loc_sum (next_day t) enddate ?daily
        = X * real (length (date_range t enddate))"
      using today_sum future_sum by (simp add: algebra_simps)
    then show ?thesis by (simp add: reconcile_def Let_def)
  qed
  have "date_le startdate startdate" by (simp add: date_le_def)
  with assms(1) have est_start: "estimated (reconcile ?daily startdate enddate startdate year_wh day_wh)
      = py_round (X * real (length (date_range startdate enddate)))"
    using se by (rule est)
  from curve allX est [OF assms(3,4,5)] est_start show ?thesis by (intro exI conjI)
qed

theorem constant_averages_constant_curve_witness:
  "valid_date (Date 2024 3 1) \<and> valid_date (Date 2024 3 31) \<and> valid_date (Date 2024 3 15)
    \<and> date_le (Date 2024 3 1) (Date 2024 3 15) \<and> date_le (Date 2024 3 15) (Date 2024 3 31)
    \<and> constant_averages 10 1 = Some (Some 10) \<and> constant_averages 10 12 = Some (Some 10)
    \<and> (\<exists>daily. daily_curve (constant_averages 10) (Date 2024 3 1) (Date 2024 3 31) = Inr daily
        \<and> (\<forall>r\<in>set daily. snd r = Some 10)
        \<and> estimated (reconcile daily (Date 2024 3 1) (Date 2024 3 31) (Date 2024 3 15) 450000 12000)
            = 170
        \<and> estimated (reconcile daily (Date 2024 3 1) (Date 2024 3 31) (Date 2024 3 1) 450000 12000)
            = 310)"
proof -
  have h: "valid_date (Date 2024 3 1)" "valid_date (Date 2024 3 31)" "valid_date (Date 2024 3 15)"
    "date_le (Date 2024 3 1) (Date 2024 3 15)" "date_le (Date 2024 3 15) (Date 2024 3 31)"
    "\<forall>m\<in>{1..12}. constant_averages 10 m = Some (Some 10)"
    by (simp_all add: valid_date_def days_in_month_def date_le_def date_less_def
        constant_averages_def)
  have i: "constant_averages 10 1 = Some (Some 10)" "constant_averages 10 12 = Some (Some 10)"
    by (simp_all add: constant_averages_def)
  have "toordinal (Date 2024 3 31) - toordinal (Date 2024 3 15) + 1 = 17"
    "toordinal (Date 2024 3 31) - toordinal (Date 2024 3 1) + 1 = 31"
    by (simp_all add: toordinal_def days_before_month_def)
  then have n: "length (date_range (Date 2024 3 15) (Date 2024 3 31)) = 17"
    "length (date_range (Date 2024 3 1) (Date 2024 3 31)) = 31"
    by (simp_all add: length_date_range)
  have r: "py_round 170 = 170" "py_round 310 = 310"
    by (simp_all add: py_round_def Let_def)
  from constant_averages_constant_curve [OF h, of 450000 12000]
  have "\<exists>daily. daily_curve (constant_averages 10) (Date 2024 3 1) (Date 2024 3 31) = Inr daily
        \<and> (\<forall>r\<in>set daily. snd r = Some 10)
        \<and> estimated (reconcile daily (Date 2024 3 1) (Date 2024 3 31) (Date 2024 3 15) 450000 12000)
            = 170
        \<and> estimated (reconcile daily (Date 2024 3 1) (Date 2024 3 31) (Date 2024 3 1) 450000 12000)
            = 310"
    by (simp add: n r)
  with h(1-5) i show ?thesis by (intro conjI)
qed

theorem estimated_whole_month_counterexample:
  "(case daily_curve (constant_averages 10) (Date 2024 3 1) (Date 2024 3 31) of
       Inl e \<Rightarrow> False
     | Inr daily \<Rightarrow>
         estimated (reconcile daily (Date 2024 3 1) (Date 2024 3 31) (Date 2024 3 15) 450000 12000)
           = 170)
    \<and> length (date_range (Date 2024 3 1) (Date 2024 3 31)) = 31
    \<and> py_round (10 * 31) = 310"
  by code_simp

end
